theory Spec2Isabelle
  imports Complex_Main "HOL-Library.AList" "HOL-Library.Sublist" "HOL-Library.Code_Target_Numeral"
begin

section \<open>Python values and builtins used by the calibration tower\<close>

text \<open>
  The transform computes with Python numbers: \<open>int\<close> (unbounded) and \<open>float\<close>. A float is
  modelled by the rational number it denotes, with exact arithmetic: no rounding error, no
  \<open>inf\<close>, \<open>nan\<close> or negative zero. The distinction between \<open>int\<close> and \<open>float\<close> is kept,
  because the command builder checks types exactly and because the two print differently.

  The model and the code therefore agree on \<open>int\<close> arithmetic, and on floats as long as every
  value met is a binary fraction that a double holds exactly (such as \<open>0.5\<close>, \<open>2.0\<close>, \<open>2.5\<close>).
  The concrete evaluations below use such values only, and the statements about the step
  formula and the interval of the step are made for integers.
\<close>

datatype pynum = PInt int | PFloat rat

datatype error =
    ValueError_InvalidGCode
  | ValueError_UnsupportedGCode
  | ValueError_InvalidArgument
  | ValueError_InvalidArgumentType
  | ValueError_Conversion
  | TypeError
  | ZeroDivisionError

fun num_val :: "pynum \<Rightarrow> rat" where
  "num_val (PInt i) = of_int i"
| "num_val (PFloat r) = r"

text \<open>\<open>+\<close>, \<open>-\<close>, \<open>*\<close>: an \<open>int\<close> result only when both operands are \<open>int\<close>.\<close>

fun py_add :: "pynum \<Rightarrow> pynum \<Rightarrow> pynum" where
  "py_add (PInt a) (PInt b) = PInt (a + b)"
| "py_add a b = PFloat (num_val a + num_val b)"

fun py_sub :: "pynum \<Rightarrow> pynum \<Rightarrow> pynum" where
  "py_sub (PInt a) (PInt b) = PInt (a - b)"
| "py_sub a b = PFloat (num_val a - num_val b)"

fun py_mul :: "pynum \<Rightarrow> pynum \<Rightarrow> pynum" where
  "py_mul (PInt a) (PInt b) = PInt (a * b)"
| "py_mul a b = PFloat (num_val a * num_val b)"

text \<open>\<open>a / b\<close> is always a float; \<open>a // b\<close> floors, and is an \<open>int\<close> only for two \<open>int\<close>s.\<close>

definition py_truediv :: "pynum \<Rightarrow> pynum \<Rightarrow> error + pynum" where
  "py_truediv a b =
     (if num_val b = 0 then Inl ZeroDivisionError else Inr (PFloat (num_val a / num_val b)))"

fun py_floordiv :: "pynum \<Rightarrow> pynum \<Rightarrow> error + pynum" where
  "py_floordiv (PInt a) (PInt b) =
     (if b = 0 then Inl ZeroDivisionError else Inr (PInt (a div b)))"
| "py_floordiv a b =
     (if num_val b = 0 then Inl ZeroDivisionError
      else Inr (PFloat (of_int \<lfloor>num_val a / num_val b\<rfloor>)))"

text \<open>Comparisons are by value: \<open>1 == 1.0\<close> holds in Python.\<close>

definition py_lt :: "pynum \<Rightarrow> pynum \<Rightarrow> bool" where
  "py_lt a b = (num_val a < num_val b)"

definition py_eq :: "pynum \<Rightarrow> pynum \<Rightarrow> bool" where
  "py_eq a b = (num_val a = num_val b)"

text \<open>\<open>max(a, b)\<close> and \<open>min(a, b)\<close> keep the first argument unless the second is strictly better.\<close>

definition py_max :: "pynum \<Rightarrow> pynum \<Rightarrow> pynum" where
  "py_max a b = (if py_lt a b then b else a)"

definition py_min :: "pynum \<Rightarrow> pynum \<Rightarrow> pynum" where
  "py_min a b = (if py_lt b a then b else a)"

text \<open>\<open>int(x)\<close> truncates towards zero; \<open>float(x)\<close> converts; \<open>bool(x)\<close> is \<open>x != 0\<close>.\<close>

fun py_int :: "pynum \<Rightarrow> int" where
  "py_int (PInt i) = i"
| "py_int (PFloat r) = (if 0 \<le> r then \<lfloor>r\<rfloor> else \<lceil>r\<rceil>)"

definition py_float :: "pynum \<Rightarrow> pynum" where
  "py_float a = PFloat (num_val a)"

definition py_bool :: "pynum \<Rightarrow> bool" where
  "py_bool a = (num_val a \<noteq> 0)"

subsection \<open>Strings\<close>

text \<open>
  A string is a list of characters, a character being a code point below 256. \<open>str.strip()\<close>
  removes the white space characters from both ends: among these code points, 9 to 13, 28
  to 32, 133 and 160. \<open>str.split(c)\<close> cuts at every occurrence of the separator and keeps
  empty pieces; \<open>c.join(xs)\<close> puts the separator between pieces.
\<close>

definition is_space :: "char \<Rightarrow> bool" where
  "is_space c = (of_char c \<in> {9, 10, 11, 12, 13, 28, 29, 30, 31, 32, 133, 160 :: nat})"

definition strip :: "string \<Rightarrow> string" where
  "strip s = rev (dropWhile is_space (rev (dropWhile is_space s)))"

fun split :: "char \<Rightarrow> string \<Rightarrow> string list" where
  "split c [] = [[]]"
| "split c (x # xs) =
     (if x = c then [] # split c xs
      else (case split c xs of [] \<Rightarrow> [[x]] | w # ws \<Rightarrow> (x # w) # ws))"

fun join :: "string \<Rightarrow> string list \<Rightarrow> string" where
  "join sep [] = []"
| "join sep [x] = x"
| "join sep (x # y # ys) = x @ sep @ join sep (y # ys)"

subsection \<open>Numbers to text and back\<close>

definition is_digit :: "char \<Rightarrow> bool" where
  "is_digit c = (c \<in> set ''0123456789'')"

definition digit_val :: "char \<Rightarrow> nat" where
  "digit_val c = of_char c - 48"

definition digit_char :: "nat \<Rightarrow> char" where
  "digit_char d = char_of (48 + d)"

definition nat_of_digits :: "string \<Rightarrow> nat" where
  "nat_of_digits ds = foldl (\<lambda>a c. 10 * a + digit_val c) 0 ds"

fun str_of_nat :: "nat \<Rightarrow> string" where
  "str_of_nat n =
     (if n < 10 then [digit_char n] else str_of_nat (n div 10) @ [digit_char (n mod 10)])"

declare str_of_nat.simps [simp del]

definition str_of_int :: "int \<Rightarrow> string" where
  "str_of_int i = (if i < 0 then CHR ''-'' # str_of_nat (nat (- i)) else str_of_nat (nat i))"

text \<open>
  \<open>int(s)\<close> on a string: surrounding white space is ignored, then an optional sign and at
  least one decimal digit. (Python also accepts underscores between digits and non-ASCII
  digits; the model answers \<open>ValueError\<close> there.)
\<close>

definition digits_value :: "string \<Rightarrow> nat option" where
  "digits_value ds = (if ds \<noteq> [] \<and> list_all is_digit ds then Some (nat_of_digits ds) else None)"

fun split_sign :: "string \<Rightarrow> bool \<times> string" where
  "split_sign [] = (False, [])"
| "split_sign (c # cs) =
     (if c = CHR ''-'' then (True, cs) else if c = CHR ''+'' then (False, cs) else (False, c # cs))"

definition int_of_str :: "string \<Rightarrow> error + int" where
  "int_of_str s =
     (case split_sign (strip s) of (neg, ds) \<Rightarrow>
        (case digits_value ds of
           None \<Rightarrow> Inl ValueError_Conversion
         | Some n \<Rightarrow> Inr (if neg then - int n else int n)))"

text \<open>
  \<open>float(s)\<close> on a string: surrounding white space is ignored, then an optional sign, a
  decimal numeral with an optional point (digits on at least one side of it) and an
  optional exponent \<open>e\<close> or \<open>E\<close> with an optional sign. The value is the decimal read
  exactly, where Python takes the nearest double. (Python also accepts \<open>inf\<close>, \<open>nan\<close> and
  underscores between digits; the model answers \<open>ValueError\<close> there.)
\<close>

definition decimal_value :: "string \<Rightarrow> rat option" where
  "decimal_value s =
     (let ip = takeWhile is_digit s; r = dropWhile is_digit s in
      case r of
        [] \<Rightarrow> (if ip = [] then None else Some (of_nat (nat_of_digits ip)))
      | c # fp \<Rightarrow>
          (if c = CHR ''.'' \<and> list_all is_digit fp \<and> (ip \<noteq> [] \<or> fp \<noteq> [])
           then Some (of_nat (nat_of_digits ip) + of_nat (nat_of_digits fp) / 10 ^ length fp)
           else None))"

definition is_exp_mark :: "char \<Rightarrow> bool" where
  "is_exp_mark c = (c = CHR ''e'' \<or> c = CHR ''E'')"

definition exponent_value :: "string \<Rightarrow> int option" where
  "exponent_value s =
     (case s of
        [] \<Rightarrow> Some 0
      | _ # es \<Rightarrow>
          (case split_sign es of (neg, ds) \<Rightarrow>
             (case digits_value ds of
                None \<Rightarrow> None
              | Some n \<Rightarrow> Some (if neg then - int n else int n))))"

definition float_of_str :: "string \<Rightarrow> error + rat" where
  "float_of_str s =
     (case split_sign (strip s) of (neg, body) \<Rightarrow>
        (case (decimal_value (takeWhile (\<lambda>c. \<not> is_exp_mark c) body),
               exponent_value (dropWhile (\<lambda>c. \<not> is_exp_mark c) body)) of
           (Some m, Some x) \<Rightarrow> Inr ((if neg then - m else m) * 10 powi x)
         | _ \<Rightarrow> Inl ValueError_Conversion))"

text \<open>
  \<open>round(v, 5)\<close> leaves an \<open>int\<close> as it is and rounds a float to five decimals, a tie going
  to the even neighbour. The text of a float rounded so is its shortest decimal: fixed
  notation with at least one decimal, and the exponent notation Python uses below
  \<open>0.0001\<close> and from \<open>1e16\<close> on. \<open>fmt_round\<close> is \<open>'{}'.format(round(v, 5))\<close>; the rounded float
  is carried as the integer \<open>round(v * 100000)\<close>, and \<open>repr_digits\<close> prints its absolute value.
  (Zero has no sign, and every digit of the rounded value is printed, where Python prints
  the shortest text that reads back as the same double.)
\<close>

definition round_half_even :: "rat \<Rightarrow> int" where
  "round_half_even r =
     (let f = \<lfloor>r\<rfloor>; d = r - of_int f in
      if d < 1 / 2 then f else if 1 / 2 < d then f + 1 else if even f then f else f + 1)"

definition strip_zeros :: "string \<Rightarrow> string" where
  "strip_zeros s = rev (dropWhile (\<lambda>c. c = CHR ''0'') (rev s))"

definition pad5 :: "nat \<Rightarrow> string" where
  "pad5 k = (let s = str_of_nat k in replicate (5 - length s) (CHR ''0'') @ s)"

definition repr_digits :: "nat \<Rightarrow> string" where
  "repr_digits m =
     (let ip = str_of_nat (m div 100000); fp = strip_zeros (pad5 (m mod 100000)) in
      if m = 0 then ''0.0''
      else if m < 10 then str_of_nat m @ ''e-05''
      else if 16 < length ip then
        (let ds = strip_zeros (ip @ fp) in
         take 1 ds @ (if drop 1 ds = [] then [] else CHR ''.'' # drop 1 ds)
           @ ''e+'' @ str_of_nat (length ip - 1))
      else ip @ ''.'' @ (if fp = [] then ''0'' else fp))"

definition repr_float5 :: "int \<Rightarrow> string" where
  "repr_float5 n = (if n < 0 then ''-'' else []) @ repr_digits (nat \<bar>n\<bar>)"

fun py_round5 :: "pynum \<Rightarrow> pynum" where
  "py_round5 (PInt i) = PInt i"
| "py_round5 (PFloat r) = PFloat (of_int (round_half_even (r * 100000)) / 100000)"

fun fmt_round :: "pynum \<Rightarrow> string" where
  "fmt_round (PInt i) = str_of_int i"
| "fmt_round (PFloat r) = repr_float5 (round_half_even (r * 100000))"

section \<open>The command catalog and codec (gcode.py)\<close>

datatype argtype = float_t | int_t | NoneType

record GCodeDescr =
  descr_code :: string
  arguments :: "(string \<times> argtype) list"

definition LINEAR_MOTION_COMMAND :: GCodeDescr where
  "LINEAR_MOTION_COMMAND = \<lparr>descr_code = ''G0'', arguments =
     [(''F'', float_t), (''X'', float_t), (''Y'', float_t), (''Z'', float_t), (''E'', float_t)]\<rparr>"

definition LINEAR_MOTION_EXTRUDED_COMMAND :: GCodeDescr where
  "LINEAR_MOTION_EXTRUDED_COMMAND = \<lparr>descr_code = ''G1'', arguments =
     [(''F'', float_t), (''X'', float_t), (''Y'', float_t), (''Z'', float_t), (''E'', float_t)]\<rparr>"

definition SET_HOTENT_TEMP_COMMAND :: GCodeDescr where
  "SET_HOTENT_TEMP_COMMAND = \<lparr>descr_code = ''M104'', arguments =
     [(''B'', int_t), (''F'', NoneType), (''I'', int_t), (''S'', int_t), (''T'', int_t)]\<rparr>"

definition SET_FLOW_COMMAND :: GCodeDescr where
  "SET_FLOW_COMMAND = \<lparr>descr_code = ''M221'', arguments = [(''S'', int_t), (''T'', int_t)]\<rparr>"

definition SET_FEEDRATE_COMMAND :: GCodeDescr where
  "SET_FEEDRATE_COMMAND = \<lparr>descr_code = ''M220'', arguments =
     [(''S'', int_t), (''B'', NoneType), (''R'', NoneType)]\<rparr>"

definition SET_FAN_SPEED_COMMAND :: GCodeDescr where
  "SET_FAN_SPEED_COMMAND = \<lparr>descr_code = ''M106'', arguments =
     [(''I'', int_t), (''P'', int_t), (''S'', int_t), (''T'', int_t)]\<rparr>"

definition SET_LINEAR_ADVANCE_FACTOR :: GCodeDescr where
  "SET_LINEAR_ADVANCE_FACTOR = \<lparr>descr_code = ''M900'', arguments =
     [(''K'', float_t), (''L'', float_t), (''S'', int_t), (''T'', int_t)]\<rparr>"

text \<open>
  \<open>get_all_commands\<close> collects the attributes of \<open>GCodeDescr\<close> whose name ends in
  \<open>_COMMAND\<close>, in the alphabetical order of \<open>dir\<close>. \<open>SET_LINEAR_ADVANCE_FACTOR\<close> has no such
  name and is not collected.
\<close>

definition get_all_commands :: "GCodeDescr list" where
  "get_all_commands =
     [LINEAR_MOTION_COMMAND, LINEAR_MOTION_EXTRUDED_COMMAND, SET_FAN_SPEED_COMMAND,
      SET_FEEDRATE_COMMAND, SET_FLOW_COMMAND, SET_HOTENT_TEMP_COMMAND]"

definition get :: "string \<Rightarrow> GCodeDescr option" where
  "get c = find (\<lambda>d. descr_code d = c) get_all_commands"

text \<open>
  A command: its code (or \<open>None\<close>), its arguments as Python's insertion-ordered \<open>dict\<close> (an
  association list with distinct keys; a flag argument has the value \<open>None\<close>), its comment.
\<close>

record GCodeCommand =
  cmd_code :: "string option"
  args :: "(string \<times> pynum option) list"
  comment :: string

definition command :: "GCodeCommand \<Rightarrow> GCodeDescr option" where
  "command c = (case cmd_code c of None \<Rightarrow> None | Some s \<Rightarrow> get s)"

text \<open>\<open>__str__\<close>: \<open>round(None, 5)\<close> raises \<open>TypeError\<close>, so a flag argument cannot be printed.\<close>

fun format_args :: "(string \<times> pynum option) list \<Rightarrow> error + string" where
  "format_args [] = Inr []"
| "format_args ((k, v) # kvs) =
     (case v of
        None \<Rightarrow> Inl TypeError
      | Some n \<Rightarrow>
          (case format_args kvs of
             Inl e \<Rightarrow> Inl e
           | Inr s \<Rightarrow> Inr ('' '' @ k @ fmt_round n @ s)))"

definition format :: "GCodeCommand \<Rightarrow> error + string" where
  "format c =
     (case format_args (args c) of
        Inl e \<Rightarrow> Inl e
      | Inr s \<Rightarrow>
          Inr ((case cmd_code c of None \<Rightarrow> [] | Some cd \<Rightarrow> cd) @ s
               @ (if comment c \<noteq> [] then '';'' @ comment c else [])))"

text \<open>\<open>parse\<close>: the converters \<open>float\<close> and \<open>int\<close> raise \<open>TypeError\<close> on \<open>None\<close> (a bare letter).\<close>

fun convert :: "argtype \<Rightarrow> string option \<Rightarrow> error + pynum option" where
  "convert NoneType _ = Inr None"
| "convert _ None = Inl TypeError"
| "convert float_t (Some s) =
     (case float_of_str s of Inl e \<Rightarrow> Inl e | Inr r \<Rightarrow> Inr (Some (PFloat r)))"
| "convert int_t (Some s) =
     (case int_of_str s of Inl e \<Rightarrow> Inl e | Inr i \<Rightarrow> Inr (Some (PInt i)))"

fun parse_args :: "(string \<times> argtype) list \<Rightarrow> string list \<Rightarrow> error + (string \<times> pynum option) list" where
  "parse_args [] toks = Inr []"
| "parse_args ((arg, ty) # rest) toks =
     (case find (\<lambda>t. take 1 t = arg) toks of
        None \<Rightarrow> parse_args rest toks
      | Some t \<Rightarrow>
          (case convert ty (if drop 1 t = [] then None else Some (drop 1 t)) of
             Inl e \<Rightarrow> Inl e
           | Inr v \<Rightarrow>
               (case parse_args rest toks of
                  Inl e \<Rightarrow> Inl e
                | Inr kvs \<Rightarrow> Inr ((arg, v) # kvs))))"

definition parse :: "string \<Rightarrow> error + GCodeCommand" where
  "parse line =
     (if line = [] then Inr \<lparr>cmd_code = None, args = [], comment = []\<rparr>
      else if hd line \<notin> set ''GM;'' then Inl ValueError_InvalidGCode
      else
        (let command_tokens = split (CHR '';'') line;
             tokens = filter (\<lambda>t. t \<noteq> []) (split (CHR '' '') (hd command_tokens));
             cmt = join '' '' (tl command_tokens)
         in case tokens of
              [] \<Rightarrow> Inr \<lparr>cmd_code = None, args = [], comment = cmt\<rparr>
            | cd # toks \<Rightarrow>
                (case get cd of
                   None \<Rightarrow> Inl ValueError_UnsupportedGCode
                 | Some d \<Rightarrow>
                     (case parse_args (arguments d) toks of
                        Inl e \<Rightarrow> Inl e
                      | Inr kvs \<Rightarrow> Inr \<lparr>cmd_code = Some cd, args = kvs, comment = cmt\<rparr>))))"

definition new_comment :: "string \<Rightarrow> GCodeCommand" where
  "new_comment c = \<lparr>cmd_code = None, args = [], comment = c\<rparr>"

text \<open>
  \<open>new\<close>: the keyword arguments are checked in the order given; the type of a value must be
  the declared type itself.
\<close>

fun type_of :: "pynum option \<Rightarrow> argtype" where
  "type_of None = NoneType"
| "type_of (Some (PInt _)) = int_t"
| "type_of (Some (PFloat _)) = float_t"

fun new_args :: "(string \<times> argtype) list \<Rightarrow> (string \<times> pynum option) list
    \<Rightarrow> (string \<times> pynum option) list \<Rightarrow> error + (string \<times> pynum option) list" where
  "new_args schema [] result_args = Inr result_args"
| "new_args schema ((arg, v) # kwargs) result_args =
     (case map_of schema arg of
        None \<Rightarrow> Inl ValueError_InvalidArgument
      | Some ty \<Rightarrow>
          (if type_of v \<noteq> ty then Inl ValueError_InvalidArgumentType
           else new_args schema kwargs (AList.update arg v result_args)))"

definition new :: "GCodeDescr \<Rightarrow> string \<Rightarrow> (string \<times> pynum option) list \<Rightarrow> error + GCodeCommand" where
  "new d cmt kwargs =
     (case new_args (arguments d) kwargs [] of
        Inl e \<Rightarrow> Inl e
      | Inr kvs \<Rightarrow> Inr \<lparr>cmd_code = Some (descr_code d), args = kvs, comment = cmt\<rparr>)"

section \<open>Printer state, step detection and processors (calibration_processor.py)\<close>

text \<open>
  \<open>k in cmd.args\<close> asks for the key. Where the code reads the value of a motion or
  temperature argument, the value is a number: \<open>parse\<close> is the only producer of the
  commands read, and it gives \<open>None\<close> to flag arguments only. \<open>num_arg\<close> reads such a value.
\<close>

definition has_key :: "(string \<times> pynum option) list \<Rightarrow> string \<Rightarrow> bool" where
  "has_key kvs k = (map_of kvs k \<noteq> None)"

definition num_arg :: "(string \<times> pynum option) list \<Rightarrow> string \<Rightarrow> pynum option" where
  "num_arg kvs k = (case map_of kvs k of Some (Some n) \<Rightarrow> Some n | _ \<Rightarrow> None)"

subsection \<open>Retraction\<close>

datatype phase = NONE | RETRACTING | PRIMING | JUST_PRIMED

record Retraction =
  r_last_e :: pynum
  r_e :: pynum
  r_last_retract :: pynum
  r_state :: phase

definition Retraction_init :: Retraction where
  "Retraction_init = \<lparr>r_last_e = PInt 0, r_e = PInt 0, r_last_retract = PInt 0, r_state = NONE\<rparr>"

definition handle_new_line :: "Retraction \<Rightarrow> Retraction" where
  "handle_new_line r =
     (if r_state r = PRIMING then r\<lparr>r_state := JUST_PRIMED\<rparr>
      else if r_state r = JUST_PRIMED then r\<lparr>r_state := NONE\<rparr>
      else r)"

definition update_e :: "Retraction \<Rightarrow> pynum \<Rightarrow> Retraction" where
  "update_e r new_e = r\<lparr>r_last_e := r_e r, r_e := new_e\<rparr>"

text \<open>\<open>not any(k in cmd.args for k in 'XYZ') and 'E' in cmd.args\<close>: a filament-only move.\<close>

definition filament_only :: "(string \<times> pynum option) list \<Rightarrow> bool" where
  "filament_only kvs =
     (\<not> (has_key kvs ''X'' \<or> has_key kvs ''Y'' \<or> has_key kvs ''Z'') \<and> has_key kvs ''E'')"

definition handle_linear_motion :: "Retraction \<Rightarrow> GCodeCommand \<Rightarrow> Retraction" where
  "handle_linear_motion r cmd =
     (if command cmd = Some LINEAR_MOTION_EXTRUDED_COMMAND then
        (let r1 = (case num_arg (args cmd) ''E'' of Some v \<Rightarrow> update_e r v | None \<Rightarrow> r) in
         if filament_only (args cmd)
         then
           (if py_lt (r_e r1) (r_last_e r1)
            then r1\<lparr>r_state := RETRACTING, r_last_retract := py_sub (r_last_e r1) (r_e r1)\<rparr>
            else if py_lt (r_last_e r1) (r_e r1) then r1\<lparr>r_state := PRIMING\<rparr>
            else r1)
         else r1)
      else r)"

subsection \<open>PrinterHead\<close>

record PrinterHead =
  head_x :: pynum
  head_y :: pynum
  head_z :: pynum
  head_e :: pynum
  feedrate :: pynum
  temp :: pynum
  retraction :: Retraction

definition PrinterHead_init :: PrinterHead where
  "PrinterHead_init =
     \<lparr>head_x = PInt 0, head_y = PInt 0, head_z = PInt 0, head_e = PInt 0,
      feedrate = PInt 0, temp = PInt 0, retraction = Retraction_init\<rparr>"

definition head_handle_linear_motion :: "PrinterHead \<Rightarrow> (string \<times> pynum option) list \<Rightarrow> PrinterHead" where
  "head_handle_linear_motion h kvs =
     h\<lparr>head_x := (case num_arg kvs ''X'' of Some v \<Rightarrow> v | None \<Rightarrow> head_x h),
       head_y := (case num_arg kvs ''Y'' of Some v \<Rightarrow> v | None \<Rightarrow> head_y h),
       head_z := (case num_arg kvs ''Z'' of Some v \<Rightarrow> v | None \<Rightarrow> head_z h),
       head_e := (case num_arg kvs ''E'' of Some v \<Rightarrow> v | None \<Rightarrow> head_e h),
       feedrate := (case num_arg kvs ''F'' of Some v \<Rightarrow> v | None \<Rightarrow> feedrate h)\<rparr>"

definition head_handle_set_hotend_temp :: "PrinterHead \<Rightarrow> (string \<times> pynum option) list \<Rightarrow> PrinterHead" where
  "head_handle_set_hotend_temp h kvs =
     h\<lparr>temp := (case num_arg kvs ''S'' of Some v \<Rightarrow> v | None \<Rightarrow> temp h)\<rparr>"

text \<open>
  \<open>PrinterHead.handle\<close>: the edge step of the tracker comes first; whatever \<open>parse\<close> raises
  is swallowed by the bare \<open>except\<close>, and nothing after \<open>parse\<close> can raise.
\<close>

definition head_handle :: "PrinterHead \<Rightarrow> string \<Rightarrow> PrinterHead" where
  "head_handle h line =
     (let h1 = h\<lparr>retraction := handle_new_line (retraction h)\<rparr> in
      case parse line of
        Inl _ \<Rightarrow> h1
      | Inr cmd \<Rightarrow>
          (if command cmd = Some LINEAR_MOTION_COMMAND
              \<or> command cmd = Some LINEAR_MOTION_EXTRUDED_COMMAND
           then
             (let h2 = head_handle_linear_motion h1 (args cmd) in
              h2\<lparr>retraction := handle_linear_motion (retraction h2) cmd\<rparr>)
           else if command cmd = Some SET_HOTENT_TEMP_COMMAND
           then head_handle_set_hotend_temp h1 (args cmd)
           else h1))"

text \<open>
  A line is a retract or prime trigger for the tracker when it parses to a filament-only G1
  move whose extrusion value differs from the one the tracker holds.
\<close>

definition trigger :: "Retraction \<Rightarrow> string \<Rightarrow> bool" where
  "trigger r line =
     (case parse line of
        Inl _ \<Rightarrow> False
      | Inr cmd \<Rightarrow>
          command cmd = Some LINEAR_MOTION_EXTRUDED_COMMAND \<and> filament_only (args cmd)
          \<and> (case num_arg (args cmd) ''E'' of Some v \<Rightarrow> \<not> py_eq v (r_e r) | None \<Rightarrow> False))"

subsection \<open>HeightDetector\<close>

datatype detector_kind = LayerHeightDetector | MillimeterHeightDetector

record HeightDetector =
  kind :: detector_kind
  offset :: pynum
  step_size :: pynum
  count :: pynum
  just_reached_new_step :: bool
  current_step :: pynum
  last_z :: pynum

definition HeightDetector_init :: "detector_kind \<Rightarrow> pynum \<Rightarrow> pynum \<Rightarrow> pynum \<Rightarrow> HeightDetector" where
  "HeightDetector_init k off sz cnt =
     \<lparr>kind = k, offset = off, step_size = sz, count = cnt,
      just_reached_new_step = False, current_step = PInt 0, last_z = PInt 0\<rparr>"

definition normalize :: "pynum \<Rightarrow> pynum \<Rightarrow> pynum \<Rightarrow> error + pynum" where
  "normalize current off step =
     (let result = py_max (PInt 0) (py_add (py_sub current off) (PInt 1)) in
      py_floordiv (py_sub (py_add result step) (PInt 1)) step)"

definition calculate_step :: "HeightDetector \<Rightarrow> PrinterHead \<Rightarrow> int \<Rightarrow> error + (HeightDetector \<times> pynum)" where
  "calculate_step d h layer =
     (case kind d of
        LayerHeightDetector \<Rightarrow>
          (case normalize (PInt layer) (offset d) (step_size d) of
             Inl e \<Rightarrow> Inl e
           | Inr s \<Rightarrow> Inr (d, s))
      | MillimeterHeightDetector \<Rightarrow>
          (if \<not> py_eq (head_z h) (last_z d) then
             (let d1 = d\<lparr>last_z := head_z h\<rparr> in
              case normalize (last_z d1) (offset d1) (step_size d1) of
                Inl e \<Rightarrow> Inl e
              | Inr s \<Rightarrow> Inr (d1, s))
           else Inr (d, current_step d)))"

definition detector_handle :: "HeightDetector \<Rightarrow> PrinterHead \<Rightarrow> int option \<Rightarrow> error + HeightDetector" where
  "detector_handle d h layer =
     (let d0 = d\<lparr>just_reached_new_step := False\<rparr> in
      case layer of
        None \<Rightarrow> Inr (d0\<lparr>current_step := PInt 0\<rparr>)
      | Some l \<Rightarrow>
          (case calculate_step d0 h l of
             Inl e \<Rightarrow> Inl e
           | Inr (d1, s) \<Rightarrow>
               (let step = py_min s (count d1) in
                Inr (d1\<lparr>just_reached_new_step := \<not> py_eq step (current_step d1),
                        current_step := step\<rparr>))))"

subsection \<open>Processors\<close>

text \<open>Each processor holds \<open>start\<close> and \<open>step\<close>, in this order.\<close>

datatype processor =
    HotendTempProcessor pynum pynum
  | FlowProcessor pynum pynum
  | SpeedProcessor pynum pynum
  | FanProcessor pynum pynum
  | LinearAdvanceProcessor pynum pynum
  | PrintSpeedProcessor pynum pynum
  | RetractionLengthProcessor pynum pynum
  | RetractionSpeedProcessor pynum pynum

text \<open>The constructor of \<open>RetractionSpeedProcessor\<close> scales both values by \<open>60.0\<close>.\<close>

definition RetractionSpeedProcessor_init :: "pynum \<Rightarrow> pynum \<Rightarrow> processor" where
  "RetractionSpeedProcessor_init start step =
     RetractionSpeedProcessor (py_mul start (PFloat 60)) (py_mul step (PFloat 60))"

definition get_current_value :: "pynum \<Rightarrow> pynum \<Rightarrow> pynum \<Rightarrow> pynum" where
  "get_current_value start step cur = py_add start (py_mul (py_sub cur (PInt 1)) step)"

record Marker =
  lines_before :: "string list"
  marker_line :: string
  lines_after :: "string list"

definition Marker_init :: "string \<Rightarrow> Marker" where
  "Marker_init l = \<lparr>lines_before = [], marker_line = l, lines_after = []\<rparr>"

definition new_str :: "GCodeDescr \<Rightarrow> (string \<times> pynum option) list \<Rightarrow> error + string" where
  "new_str d kwargs = (case new d [] kwargs of Inl e \<Rightarrow> Inl e | Inr c \<Rightarrow> format c)"

definition fan_value :: "pynum \<Rightarrow> error + int" where
  "fan_value v =
     (case py_truediv (py_min (PInt 100) v) (PInt 100) of
        Inl e \<Rightarrow> Inl e
      | Inr q \<Rightarrow> Inr (py_int (py_mul q (PInt 255))))"

definition single_command :: "Marker \<Rightarrow> HeightDetector \<Rightarrow> pynum \<Rightarrow> pynum
    \<Rightarrow> (pynum \<Rightarrow> error + string) \<Rightarrow> error + Marker" where
  "single_command m d start step create_command =
     (if just_reached_new_step d then
        (case create_command (get_current_value start step (current_step d)) of
           Inl e \<Rightarrow> Inl e
         | Inr s \<Rightarrow> Inr (m\<lparr>lines_before := lines_before m @ [s]\<rparr>))
      else Inr m)"

definition rewrite_line :: "Marker \<Rightarrow> GCodeCommand \<Rightarrow> string \<Rightarrow> pynum \<Rightarrow> error + Marker" where
  "rewrite_line m cmd k v =
     (case format (cmd\<lparr>args := AList.update k (Some v) (args cmd)\<rparr>) of
        Inl e \<Rightarrow> Inl e
      | Inr s \<Rightarrow> Inr (m\<lparr>marker_line := s\<rparr>))"

fun processor_handle :: "processor \<Rightarrow> Marker \<Rightarrow> HeightDetector \<Rightarrow> PrinterHead \<Rightarrow> error + Marker" where
  "processor_handle (HotendTempProcessor start step) m d h =
     single_command m d start step
       (\<lambda>v. new_str SET_HOTENT_TEMP_COMMAND [(''S'', Some (PInt (py_int v)))])"
| "processor_handle (FlowProcessor start step) m d h =
     single_command m d start step
       (\<lambda>v. new_str SET_FLOW_COMMAND [(''S'', Some (PInt (py_int v)))])"
| "processor_handle (SpeedProcessor start step) m d h =
     single_command m d start step
       (\<lambda>v. new_str SET_FEEDRATE_COMMAND [(''S'', Some (PInt (py_int v)))])"
| "processor_handle (FanProcessor start step) m d h =
     single_command m d start step
       (\<lambda>v. case fan_value v of
              Inl e \<Rightarrow> Inl e
            | Inr i \<Rightarrow> new_str SET_FAN_SPEED_COMMAND [(''S'', Some (PInt i))])"
| "processor_handle (LinearAdvanceProcessor start step) m d h =
     single_command m d start step
       (\<lambda>v. new_str SET_LINEAR_ADVANCE_FACTOR [(''K'', Some (py_float v))])"
| "processor_handle (PrintSpeedProcessor start step) m d h =
     (if py_bool (current_step d) then
        (case parse (marker_line m) of
           Inl e \<Rightarrow> Inl e
         | Inr cmd \<Rightarrow>
             (if command cmd = Some LINEAR_MOTION_EXTRUDED_COMMAND then
                (if r_state (retraction h) = JUST_PRIMED
                    \<or> (r_state (retraction h) = NONE \<and> has_key (args cmd) ''F'')
                 then
                   (case py_truediv (feedrate h) (PInt 100) of
                      Inl e \<Rightarrow> Inl e
                    | Inr q \<Rightarrow>
                        rewrite_line m cmd ''F''
                          (py_mul q (get_current_value start step (current_step d))))
                 else Inr m)
              else Inr m))
      else Inr m)"
| "processor_handle (RetractionLengthProcessor start step) m d h =
     (if py_bool (current_step d) then
        (case parse (marker_line m) of
           Inl e \<Rightarrow> Inl e
         | Inr cmd \<Rightarrow>
             (if command cmd = Some LINEAR_MOTION_EXTRUDED_COMMAND then
                (if r_state (retraction h) = RETRACTING then
                   rewrite_line m cmd ''E''
                     (py_sub (py_add (head_e h) (r_last_retract (retraction h)))
                        (get_current_value start step (current_step d)))
                 else Inr m)
              else Inr m))
      else Inr m)"
| "processor_handle (RetractionSpeedProcessor start step) m d h =
     (if py_bool (current_step d) then
        (case parse (marker_line m) of
           Inl e \<Rightarrow> Inl e
         | Inr cmd \<Rightarrow>
             (if command cmd = Some LINEAR_MOTION_EXTRUDED_COMMAND then
                (if r_state (retraction h) = RETRACTING \<or> r_state (retraction h) = PRIMING then
                   (case rewrite_line m cmd ''F'' (get_current_value start step (current_step d)) of
                      Inl e \<Rightarrow> Inl e
                    | Inr m1 \<Rightarrow>
                        (case new_str LINEAR_MOTION_EXTRUDED_COMMAND [(''F'', Some (feedrate h))] of
                           Inl e \<Rightarrow> Inl e
                         | Inr s \<Rightarrow> Inr (m1\<lparr>lines_after := lines_after m1 @ [s]\<rparr>)))
                 else Inr m)
              else Inr m))
      else Inr m)"

subsection \<open>CalibrationProcessor\<close>

record CalibrationProcessor =
  height_detector :: HeightDetector
  processors :: "processor list"
  head :: PrinterHead

definition CalibrationProcessor_init :: "HeightDetector \<Rightarrow> processor list \<Rightarrow> CalibrationProcessor" where
  "CalibrationProcessor_init d ps = \<lparr>height_detector = d, processors = ps, head = PrinterHead_init\<rparr>"

text \<open>\<open>_check_layer\<close>: the pattern \<open>^;LAYER:(\d+)\<close>, with ASCII digits.\<close>

definition check_layer :: "string \<Rightarrow> int option" where
  "check_layer line =
     (if take 7 line = '';LAYER:'' \<and> takeWhile is_digit (drop 7 line) \<noteq> []
      then Some (int (nat_of_digits (takeWhile is_digit (drop 7 line))))
      else None)"

fun run_processors :: "processor list \<Rightarrow> Marker \<Rightarrow> HeightDetector \<Rightarrow> PrinterHead \<Rightarrow> error + Marker" where
  "run_processors [] m d h = Inr m"
| "run_processors (p # ps) m d h =
     (case processor_handle p m d h of
        Inl e \<Rightarrow> Inl e
      | Inr m1 \<Rightarrow> run_processors ps m1 d h)"

text \<open>
  The body of the inner loop of \<open>process_data\<close> for one raw line: the state is the
  processor object (head and detector) and the layer of the block; the result carries the
  lines to append to \<open>new_lines\<close>.
\<close>

definition process_line :: "CalibrationProcessor \<Rightarrow> int option \<Rightarrow> string
    \<Rightarrow> error + (CalibrationProcessor \<times> int option \<times> string list)" where
  "process_line cp current_layer raw =
     (let line = strip raw in
      if line = [] then Inr (cp, current_layer, [])
      else
        (let layer = (case current_layer of None \<Rightarrow> check_layer line | Some l \<Rightarrow> Some l);
             h = head_handle (head cp) line
         in case detector_handle (height_detector cp) h layer of
              Inl e \<Rightarrow> Inl e
            | Inr d \<Rightarrow>
                (case run_processors (processors cp) (Marker_init line) d h of
                   Inl e \<Rightarrow> Inl e
                 | Inr m \<Rightarrow>
                     Inr (cp\<lparr>height_detector := d, head := h\<rparr>, layer,
                          lines_before m @ [marker_line m] @ lines_after m))))"

fun process_lines :: "CalibrationProcessor \<Rightarrow> int option \<Rightarrow> string list \<Rightarrow> string list
    \<Rightarrow> error + (CalibrationProcessor \<times> string list)" where
  "process_lines cp current_layer new_lines [] = Inr (cp, new_lines)"
| "process_lines cp current_layer new_lines (raw # rest) =
     (case process_line cp current_layer raw of
        Inl e \<Rightarrow> Inl e
      | Inr (cp1, layer, ls) \<Rightarrow> process_lines cp1 layer (new_lines @ ls) rest)"

definition process_group :: "CalibrationProcessor \<Rightarrow> string \<Rightarrow> error + (CalibrationProcessor \<times> string)" where
  "process_group cp grp =
     (case process_lines cp None [] (split (CHR ''\<newline>'') grp) of
        Inl e \<Rightarrow> Inl e
      | Inr (cp1, new_lines) \<Rightarrow> Inr (cp1, join ''\<newline>'' new_lines @ ''\<newline>''))"

text \<open>
  \<open>process_data\<close> returns the new blocks; the model returns the processor object as well,
  since its head and detector are mutated and live on after the call.
\<close>

fun process_data :: "CalibrationProcessor \<Rightarrow> string list \<Rightarrow> error + (CalibrationProcessor \<times> string list)" where
  "process_data cp [] = Inr (cp, [])"
| "process_data cp (grp # rest) =
     (case process_group cp grp of
        Inl e \<Rightarrow> Inl e
      | Inr (cp1, block) \<Rightarrow>
          (case process_data cp1 rest of
             Inl e \<Rightarrow> Inl e
           | Inr (cp2, blocks) \<Rightarrow> Inr (cp2, block # blocks)))"

subsection \<open>Notions used to state the properties\<close>

text \<open>
  The lines of a block as the inner loop of \<open>process_data\<close> sees them: cut at newlines,
  trimmed, blank ones skipped. What one source line contributes to \<open>new_lines\<close> is
  \<open>lines_before + [line] + lines_after\<close> of its marker. The one-shot processors are the
  subclasses of \<open>SingleCommandProcessor\<close>.
\<close>

definition clean_lines :: "string \<Rightarrow> string list" where
  "clean_lines grp = filter (\<lambda>l. l \<noteq> []) (map strip (split (CHR ''\<newline>'') grp))"

definition emit :: "Marker \<Rightarrow> string list" where
  "emit m = lines_before m @ [marker_line m] @ lines_after m"

fun single_command_processor :: "processor \<Rightarrow> bool" where
  "single_command_processor (HotendTempProcessor _ _) = True"
| "single_command_processor (FlowProcessor _ _) = True"
| "single_command_processor (SpeedProcessor _ _) = True"
| "single_command_processor (FanProcessor _ _) = True"
| "single_command_processor (LinearAdvanceProcessor _ _) = True"
| "single_command_processor _ = False"

text \<open>
  The command word of a line is what \<open>parse\<close> takes as the code: the first non-empty token,
  cut at spaces, of the text before the first \<open>;\<close> (empty when there is none). The comment
  part of a line is what \<open>parse\<close> takes as the comment: the pieces after the first \<open>;\<close>,
  joined with spaces.

  \<open>kept_or_rewritten ps l m\<close> relates a trimmed source line \<open>l\<close> to the marker \<open>m\<close> emitted for
  it under the processors \<open>ps\<close>. With one-shot processors only, the marker carries the line
  itself and nothing is queued after it. Otherwise the marker carries the line itself, or
  the line is a \<open>G1\<close> command and the marker carries in its place a \<open>G1\<close> command line with
  the same comment part.
\<close>

definition command_word :: "string \<Rightarrow> string" where
  "command_word line =
     (case filter (\<lambda>t. t \<noteq> []) (split (CHR '' '') (hd (split (CHR '';'') line))) of
        [] \<Rightarrow> []
      | cd # _ \<Rightarrow> cd)"

definition comment_part :: "string \<Rightarrow> string" where
  "comment_part line = join '' '' (tl (split (CHR '';'') line))"

definition kept_or_rewritten :: "processor list \<Rightarrow> string \<Rightarrow> Marker \<Rightarrow> bool" where
  "kept_or_rewritten ps l m =
     (if list_all single_command_processor ps then marker_line m = l \<and> lines_after m = []
      else marker_line m = l
           \<or> (command_word l = ''G1'' \<and> command_word (marker_line m) = ''G1''
              \<and> comment_part (marker_line m) = comment_part l))"

text \<open>
  The arguments of a dictionary listed in the order a schema declares them: for each
  argument letter of the schema, its entry if the dictionary has one.
\<close>

definition in_schema_order :: "(string \<times> argtype) list \<Rightarrow> (string \<times> 'a) list \<Rightarrow> (string \<times> 'a) list" where
  "in_schema_order schema kvs =
     concat (map (\<lambda>(a, ty). case map_of kvs a of None \<Rightarrow> [] | Some v \<Rightarrow> [(a, v)]) schema)"

section \<open>Verified properties\<close>

subsection \<open>Arithmetic of Python numbers\<close>

lemma num_val_add [simp]: "num_val (py_add a b) = num_val a + num_val b"
  by (cases a; cases b) simp_all

lemma num_val_sub [simp]: "num_val (py_sub a b) = num_val a - num_val b"
  by (cases a; cases b) simp_all

lemma num_val_mul [simp]: "num_val (py_mul a b) = num_val a * num_val b"
  by (cases a; cases b) simp_all

lemma num_val_max [simp]: "num_val (py_max a b) = max (num_val a) (num_val b)"
  by (simp add: py_max_def py_lt_def max_def)

lemma num_val_min [simp]: "num_val (py_min a b) = min (num_val a) (num_val b)"
  by (simp add: py_min_def py_lt_def min_def)

lemma ceil_div_int:
  fixes a s :: int
  assumes "0 < s"
  shows "(a + s - 1) div s = \<lceil>(of_int a :: rat) / of_int s\<rceil>"
proof -
  have d: "- a = s * (- a div s) + (- a) mod s" by simp
  have "a + s - 1 = s * (- (- a div s)) + (s - 1 - (- a) mod s)"
    using d by (simp add: algebra_simps)
  moreover have "0 \<le> s - 1 - (- a) mod s"
    using assms pos_mod_bound [of s "- a"] by linarith
  moreover have "s - 1 - (- a) mod s < s"
    using assms pos_mod_sign [of s "- a"] by linarith
  ultimately have "(a + s - 1) div s = - (- a div s)"
    by (rule int_div_pos_eq)
  then show ?thesis by (simp add: ceiling_divide_eq_div)
qed

subsection \<open>The step formula\<close>

text \<open>
  \<open>normalize\<close> ends in \<open>(result + step - 1) // step\<close>, the ceiling division of integers. On
  integers, with a positive step size, it is the ceiling of \<open>max(0, current - offset + 1)\<close>
  over the step size.
\<close>

lemma normalize_int:
  assumes "0 < s"
  shows "normalize (PInt c) (PInt off) (PInt s)
           = Inr (PInt \<lceil>max 0 (of_int (c - off + 1) :: rat) / of_int s\<rceil>)"
proof -
  have "max 0 (of_int (c - off + 1) :: rat) = of_int (max 0 (c - off + 1))" by simp
  then show ?thesis using assms
    by (simp add: normalize_def py_max_def py_lt_def ceil_div_int [symmetric] max_def
             del: of_int_diff of_int_add)
qed

text \<open>
  C5 states the ceiling for every current, offset and positive step size, non-integer
  heights included. There the code does not compute it. With \<open>current = 2.0\<close>,
  \<open>offset = 0.5\<close> and \<open>stepSize = 2.0\<close> the code returns \<open>(2.5 + 2.0 - 1) // 2.0 = 1.0\<close>, and
  the ceiling of \<open>2.5 / 2.0\<close> is 2. With \<open>current = 0.5\<close>, \<open>offset = 5.0\<close> and \<open>stepSize = 0.5\<close>
  the numerator is clamped to 0 and the code returns \<open>(0 + 0.5 - 1) // 0.5 = -1.0\<close>, a
  negative step, where the ceiling of \<open>0 / 0.5\<close> is 0. Every number in the two evaluations is
  a binary fraction, so the floating-point operations of the code are exact on them.
\<close>

theorem normalize_not_ceiling:
  "normalize (PFloat 2) (PFloat (1 / 2)) (PFloat 2) = Inr (PFloat 1)
   \<and> \<lceil>max 0 ((2 :: rat) - 1 / 2 + 1) / 2\<rceil> = 2
   \<and> normalize (PFloat (1 / 2)) (PFloat 5) (PFloat (1 / 2)) = Inr (PFloat (- 1))
   \<and> \<lceil>max 0 ((1 / 2 :: rat) - 5 + 1) / (1 / 2)\<rceil> = 0"
  by (simp add: normalize_def py_max_def py_lt_def floor_eq_iff
        ceiling_eq_iff)

subsection \<open>The retraction tracker\<close>

lemma command_G1:
  "command \<lparr>cmd_code = Some ''G1'', args = kvs, comment = c\<rparr> = Some LINEAR_MOTION_EXTRUDED_COMMAND"
  by (simp add: command_def get_def get_all_commands_def LINEAR_MOTION_COMMAND_def
        LINEAR_MOTION_EXTRUDED_COMMAND_def)

text \<open>
  C7: on a G1 command that carries E and none of X, Y, Z, a value of E strictly below the
  previous one gives RETRACTING with \<open>lastRetractionLength = previous - new\<close>, a value
  strictly above gives PRIMING; a G1 command that carries X, Y or Z, or no E, changes neither
  the phase nor \<open>lastRetractionLength\<close>.
\<close>

theorem retraction_transition:
  assumes "command cmd = Some LINEAR_MOTION_EXTRUDED_COMMAND"
  shows "(num_arg (args cmd) ''E'' = Some v
            \<and> \<not> has_key (args cmd) ''X'' \<and> \<not> has_key (args cmd) ''Y''
            \<and> \<not> has_key (args cmd) ''Z'' \<longrightarrow>
            (py_lt v (r_e r) \<longrightarrow>
               r_state (handle_linear_motion r cmd) = RETRACTING
               \<and> r_last_retract (handle_linear_motion r cmd) = py_sub (r_e r) v)
            \<and> (py_lt (r_e r) v \<longrightarrow> r_state (handle_linear_motion r cmd) = PRIMING))
         \<and> (has_key (args cmd) ''X'' \<or> has_key (args cmd) ''Y'' \<or> has_key (args cmd) ''Z''
              \<or> \<not> has_key (args cmd) ''E'' \<longrightarrow>
            r_state (handle_linear_motion r cmd) = r_state r
            \<and> r_last_retract (handle_linear_motion r cmd) = r_last_retract r)"
  using assms
  by (auto simp: handle_linear_motion_def filament_only_def update_e_def has_key_def num_arg_def
        py_lt_def Let_def split: option.splits)

theorem retraction_transition_witness:
  "r_state (handle_linear_motion
       \<lparr>r_last_e = PFloat 10, r_e = PFloat 20, r_last_retract = PInt 0, r_state = NONE\<rparr>
       \<lparr>cmd_code = Some ''G1'', args = [(''E'', Some (PFloat 15))], comment = []\<rparr>) = RETRACTING
   \<and> r_last_retract (handle_linear_motion
       \<lparr>r_last_e = PFloat 10, r_e = PFloat 20, r_last_retract = PInt 0, r_state = NONE\<rparr>
       \<lparr>cmd_code = Some ''G1'', args = [(''E'', Some (PFloat 15))], comment = []\<rparr>) = PFloat 5"
  using retraction_transition [OF command_G1 [of "[(''E'', Some (PFloat 15))]" "[]"], of "PFloat 15"
      "\<lparr>r_last_e = PFloat 10, r_e = PFloat 20, r_last_retract = PInt 0, r_state = NONE\<rparr>"]
  by (simp add: num_arg_def has_key_def py_lt_def)

subsection \<open>The codec on motion commands\<close>

lemma set_update_subset: "set (AList.update k v al) \<subseteq> insert (k, v) (set al)"
  by (induction al) auto

lemma convert_type: "convert ty x = Inr v \<Longrightarrow> type_of v = ty"
  by (cases ty; cases x) (auto split: sum.splits)

lemma parse_args_types:
  "parse_args sch toks = Inr kvs \<Longrightarrow> (k, v) \<in> set kvs \<Longrightarrow> (k, type_of v) \<in> set sch"
proof (induction sch arbitrary: kvs)
  case Nil
  then show ?case by simp
next
  case (Cons a sch)
  obtain arg ty where a: "a = (arg, ty)" by (cases a)
  show ?case
  proof (cases "find (\<lambda>t. take 1 t = arg) toks")
    case None
    with Cons a show ?thesis by auto
  next
    case (Some t)
    with Cons.prems a obtain v0 kvs0 where
      c: "convert ty (if drop 1 t = [] then None else Some (drop 1 t)) = Inr v0"
      and p: "parse_args sch toks = Inr kvs0" and k: "kvs = (arg, v0) # kvs0"
      by (auto split: sum.splits)
    from Cons.prems(2) k consider "(k, v) = (arg, v0)" | "(k, v) \<in> set kvs0" by auto
    then show ?thesis
    proof cases
      case 1
      with convert_type [OF c] a show ?thesis by simp
    next
      case 2
      with Cons.IH [OF p] show ?thesis by simp
    qed
  qed
qed

lemma parse_cases:
  assumes "parse line = Inr cmd"
  shows "(cmd_code cmd = None \<and> args cmd = [])
         \<or> (\<exists>cd d toks. cmd_code cmd = Some cd \<and> get cd = Some d
                \<and> parse_args (arguments d) toks = Inr (args cmd))"
  using assms
  by (auto simp: parse_def Let_def split: if_splits list.splits option.splits sum.splits)

lemma parse_G1_float:
  assumes "parse line = Inr cmd" and "command cmd = Some LINEAR_MOTION_EXTRUDED_COMMAND"
    and "(k, v) \<in> set (args cmd)"
  shows "type_of v = float_t"
proof -
  from parse_cases [OF assms(1)] assms(2) obtain toks where
    "parse_args (arguments LINEAR_MOTION_EXTRUDED_COMMAND) toks = Inr (args cmd)"
    by (auto simp: command_def)
  from parse_args_types [OF this assms(3)] show ?thesis
    by (auto simp: LINEAR_MOTION_EXTRUDED_COMMAND_def)
qed

lemma format_args_total:
  "(\<And>k v. (k, v) \<in> set kvs \<Longrightarrow> v \<noteq> None) \<Longrightarrow> \<exists>s. format_args kvs = Inr s"
proof (induction kvs)
  case Nil
  then show ?case by simp
next
  case (Cons a kvs)
  obtain k v where a: "a = (k, v)" by (cases a)
  with Cons.prems [of k v] obtain n where v: "v = Some n" by auto
  from Cons.IH Cons.prems obtain s where "format_args kvs = Inr s" by auto
  with a v show ?case by simp
qed

lemma rewrite_line_G1:
  assumes "parse line = Inr cmd" and "command cmd = Some LINEAR_MOTION_EXTRUDED_COMMAND"
  shows "\<exists>s. rewrite_line m cmd k v = Inr (m\<lparr>marker_line := s\<rparr>)"
proof -
  have "\<exists>s. format_args (AList.update k (Some v) (args cmd)) = Inr s"
  proof (rule format_args_total)
    fix k' v' assume "(k', v') \<in> set (AList.update k (Some v) (args cmd))"
    with set_update_subset have "(k', v') = (k, Some v) \<or> (k', v') \<in> set (args cmd)" by fastforce
    then show "v' \<noteq> None"
    proof
      assume "(k', v') = (k, Some v)"
      then show ?thesis by simp
    next
      assume "(k', v') \<in> set (args cmd)"
      from parse_G1_float [OF assms this] show ?thesis by (cases v') auto
    qed
  qed
  then show ?thesis by (auto simp: rewrite_line_def format_def)
qed

lemma new_type_mismatch:
  "new LINEAR_MOTION_EXTRUDED_COMMAND cmt [(''F'', Some (PInt n))] = Inl ValueError_InvalidArgumentType"
  by (simp add: new_def LINEAR_MOTION_EXTRUDED_COMMAND_def)

text \<open>
  C10: the builder compares the type of a value with the declared type itself, so an \<open>int\<close>
  is rejected for a float argument. When \<open>RetractionSpeedProcessor\<close> handles a retracting or
  priming G1 line while the step is positive and the tracked feed rate is still the initial
  \<open>int\<close> 0, building the line that restores the feed rate raises \<open>ValueError\<close>, which leaves
  the processor and the loop over the processors.
\<close>

theorem retraction_speed_restore_raises:
  assumes "0 < num_val (current_step d)"
    and "parse (marker_line m) = Inr cmd"
    and "command cmd = Some LINEAR_MOTION_EXTRUDED_COMMAND"
    and "r_state (retraction h) = RETRACTING \<or> r_state (retraction h) = PRIMING"
    and "feedrate h = PInt 0"
  shows "new LINEAR_MOTION_EXTRUDED_COMMAND [] [(''F'', Some (feedrate h))] = Inl ValueError_InvalidArgumentType
         \<and> processor_handle (RetractionSpeedProcessor start step) m d h = Inl ValueError_InvalidArgumentType
         \<and> run_processors (RetractionSpeedProcessor start step # ps) m d h = Inl ValueError_InvalidArgumentType"
proof -
  from rewrite_line_G1 [OF assms(2,3)] obtain s where
    "rewrite_line m cmd ''F'' (get_current_value start step (current_step d)) = Inr (m\<lparr>marker_line := s\<rparr>)"
    by blast
  with assms new_type_mismatch [of "[]" 0] show ?thesis
    by (auto simp: py_bool_def new_str_def)
qed


lemma parse_G1_E5: "parse ''G1 E5'' = Inr \<lparr>cmd_code = Some ''G1'', args = [(''E'', Some (PFloat 5))], comment = []\<rparr>"
  by code_simp

theorem retraction_speed_restore_raises_witness:
  "processor_handle (RetractionSpeedProcessor (PFloat 2400) (PFloat 300)) (Marker_init ''G1 E5'')
      ((HeightDetector_init LayerHeightDetector (PInt 1) (PInt 1) (PInt 5))\<lparr>current_step := PInt 1\<rparr>)
      (PrinterHead_init\<lparr>head_e := PFloat 5, retraction := \<lparr>r_last_e = PInt 0, r_e = PFloat 5, r_last_retract = PInt 0, r_state = PRIMING\<rparr>\<rparr>)
     = Inl ValueError_InvalidArgumentType"
  using retraction_speed_restore_raises [of
      "(HeightDetector_init LayerHeightDetector (PInt 1) (PInt 1) (PInt 5))\<lparr>current_step := PInt 1\<rparr>"
      "Marker_init ''G1 E5''" "\<lparr>cmd_code = Some ''G1'', args = [(''E'', Some (PFloat 5))], comment = []\<rparr>"
      "PrinterHead_init\<lparr>head_e := PFloat 5, retraction := \<lparr>r_last_e = PInt 0, r_e = PFloat 5, r_last_retract = PInt 0, r_state = PRIMING\<rparr>\<rparr>"
      "PFloat 2400" "PFloat 300" "[]"]
    parse_G1_E5 command_G1
  by (simp add: Marker_init_def HeightDetector_init_def PrinterHead_init_def)

subsection \<open>Continuous-rewrite processors on lines outside the catalog\<close>

text \<open>
  C2 asks that a continuous-rewrite processor treats a line that is no catalog command as
  "does not apply". The code does not: \<open>PrintSpeedProcessor\<close>, \<open>RetractionLengthProcessor\<close>
  and \<open>RetractionSpeedProcessor\<close> call \<open>parse\<close> with no handler, so once the step is positive
  the first such line (\<open>G92 E0\<close>, \<open>T0\<close>, \<open>M107\<close>) ends \<open>process_data\<close> with \<open>ValueError\<close>:
  no block is returned, and neither the next processor nor the next line is reached.
  \<open>PrinterHead.handle\<close> wraps the same call in \<open>try\<close>/\<open>except\<close>.
\<close>

theorem continuous_processors_raise:
  "process_data
     (CalibrationProcessor_init (HeightDetector_init LayerHeightDetector (PInt 1) (PInt 1) (PInt 5))
        [PrintSpeedProcessor (PInt 100) (PInt 10), HotendTempProcessor (PInt 190) (PInt 10)])
     ['';LAYER:1\<newline>G92 E0\<newline>G1 X1 E1 F1200\<newline>''] = Inl ValueError_UnsupportedGCode
   \<and> process_data
     (CalibrationProcessor_init (HeightDetector_init LayerHeightDetector (PInt 1) (PInt 1) (PInt 5))
        [RetractionLengthProcessor (PInt 6) (PFloat (1 / 2))])
     ['';LAYER:1\<newline>T0\<newline>G1 X1 E1 F1200\<newline>''] = Inl ValueError_InvalidGCode
   \<and> process_data
     (CalibrationProcessor_init (HeightDetector_init LayerHeightDetector (PInt 1) (PInt 1) (PInt 5))
        [RetractionSpeedProcessor_init (PInt 40) (PInt 5)])
     ['';LAYER:1\<newline>M107\<newline>G1 X1 E1 F1200\<newline>''] = Inl ValueError_UnsupportedGCode"
  by code_simp

subsection \<open>The edge step of the tracker\<close>

lemma handle_new_line_state:
  "r_state (handle_new_line r) = (case r_state r of PRIMING \<Rightarrow> JUST_PRIMED | JUST_PRIMED \<Rightarrow> NONE | p \<Rightarrow> p)"
  by (simp add: handle_new_line_def split: phase.splits)

lemma handle_new_line_e [simp]: "r_e (handle_new_line r) = r_e r"
  by (simp add: handle_new_line_def)

lemma parse_G1_num_arg:
  assumes "parse l = Inr cmd" and "command cmd = Some LINEAR_MOTION_EXTRUDED_COMMAND"
    and "has_key (args cmd) k"
  shows "\<exists>x. num_arg (args cmd) k = Some (PFloat x)"
proof -
  from assms(3) obtain v where m: "map_of (args cmd) k = Some v" by (auto simp: has_key_def)
  then have "(k, v) \<in> set (args cmd)" by (rule map_of_SomeD)
  from parse_G1_float [OF assms(1,2) this] obtain x where "v = Some (PFloat x)"
    by (cases v rule: type_of.cases) auto
  with m show ?thesis by (simp add: num_arg_def)
qed

lemma head_handle_no_trigger:
  assumes "\<not> trigger (retraction h) l"
  shows "r_state (retraction (head_handle h l)) = r_state (handle_new_line (retraction h))"
proof (cases "parse l")
  case (Inl e)
  then show ?thesis by (simp add: head_handle_def)
next
  case (Inr cmd)
  show ?thesis
  proof (cases "command cmd = Some LINEAR_MOTION_EXTRUDED_COMMAND \<and> filament_only (args cmd)")
    case False
    with Inr show ?thesis
      by (auto simp: head_handle_def Let_def handle_linear_motion_def head_handle_linear_motion_def
            head_handle_set_hotend_temp_def update_e_def split: option.splits)
  next
    case True
    then have "has_key (args cmd) ''E''" by (simp add: filament_only_def)
    from parse_G1_num_arg [OF Inr _ this] True obtain x where
      x: "num_arg (args cmd) ''E'' = Some (PFloat x)" by auto
    with assms Inr True have "py_eq (PFloat x) (r_e (retraction h))"
      by (simp add: trigger_def)
    with Inr True x show ?thesis
      by (simp add: head_handle_def Let_def handle_linear_motion_def head_handle_linear_motion_def
            update_e_def py_eq_def py_lt_def)
  qed
qed

text \<open>
  C8: \<open>PrinterHead.handle\<close> runs \<open>handle_new_line\<close> before it parses the line, so a line that
  is no retract or prime trigger leaves the phase advanced by one edge step: PRIMING becomes
  JUST_PRIMED, JUST_PRIMED becomes NONE, any other phase stays. After a line that set
  PRIMING, the next line observes JUST_PRIMED and the one after it NONE, when neither is a
  trigger.
\<close>

theorem just_primed_one_line:
  "(\<not> trigger (retraction h) l \<longrightarrow>
      r_state (retraction (head_handle h l))
        = (case r_state (retraction h) of PRIMING \<Rightarrow> JUST_PRIMED | JUST_PRIMED \<Rightarrow> NONE | p \<Rightarrow> p))
   \<and> (r_state (retraction h) = PRIMING \<and> \<not> trigger (retraction h) l
        \<and> \<not> trigger (retraction (head_handle h l)) l' \<longrightarrow>
      r_state (retraction (head_handle h l)) = JUST_PRIMED
      \<and> r_state (retraction (head_handle (head_handle h l) l')) = NONE)"
  using head_handle_no_trigger [of h l] head_handle_no_trigger [of "head_handle h l" l']
  by (auto simp: handle_new_line_state)

theorem just_primed_one_line_witness:
  "r_state (retraction (head_handle PrinterHead_init ''G1 E5'')) = PRIMING
   \<and> r_state (retraction (head_handle (head_handle PrinterHead_init ''G1 E5'') ''G1 X10 Y10 E6'')) = JUST_PRIMED
   \<and> r_state (retraction (head_handle (head_handle (head_handle PrinterHead_init ''G1 E5'')
         ''G1 X10 Y10 E6'') ''M82'')) = NONE"
proof -
  let ?h = "head_handle PrinterHead_init ''G1 E5''"
  have p: "r_state (retraction ?h) = PRIMING" by code_simp
  have t1: "\<not> trigger (retraction ?h) ''G1 X10 Y10 E6''" by code_simp
  have t2: "\<not> trigger (retraction (head_handle ?h ''G1 X10 Y10 E6'')) ''M82''" by code_simp
  from just_primed_one_line [of ?h "''G1 X10 Y10 E6''" "''M82''"] p t1 t2 show ?thesis by simp
qed

subsection \<open>The height-step detector\<close>

text \<open>
  C6, as stated, fails by the way \<open>handle\<close> treats a line with no layer known: the step is
  forced to 0 and the flag is cleared before the early return, also when the committed step
  was 3. The step changes from 3 to 0 and the flag stays false.
\<close>

theorem detector_counterexample:
  "detector_handle
     \<lparr>kind = LayerHeightDetector, offset = PInt 1, step_size = PInt 1, count = PInt 5,
      just_reached_new_step = False, current_step = PInt 3, last_z = PInt 0\<rparr>
     PrinterHead_init None
   = Inr \<lparr>kind = LayerHeightDetector, offset = PInt 1, step_size = PInt 1, count = PInt 5,
          just_reached_new_step = False, current_step = PInt 0, last_z = PInt 0\<rparr>"
  by (simp add: detector_handle_def PrinterHead_init_def)

text \<open>
  The millimeter variant passes heights to \<open>normalize\<close>, and inherits its negative result
  for a step size below 1: offset 5.0, step size 0.5 and \<open>Z = 0.5\<close> commit the step \<open>-1.0\<close>.
  This is the defect of the step formula recorded with C5, not a second one; the statement
  of C6 below says nothing about the interval of the millimeter variant.
\<close>

lemma millimeter_step_negative:
  "detector_handle
     (HeightDetector_init MillimeterHeightDetector (PFloat 5) (PFloat (1 / 2)) (PInt 5))
     (PrinterHead_init\<lparr>head_z := PFloat (1 / 2)\<rparr>) (Some 0)
   = Inr \<lparr>kind = MillimeterHeightDetector, offset = PFloat 5, step_size = PFloat (1 / 2),
          count = PInt 5, just_reached_new_step = True, current_step = PFloat (- 1),
          last_z = PFloat (1 / 2)\<rparr>"
  by (simp add: detector_handle_def calculate_step_def HeightDetector_init_def PrinterHead_init_def
        normalize_def py_eq_def py_max_def py_min_def py_lt_def floor_eq_iff)

lemma detector_handle_Inr:
  assumes "detector_handle d h layer = Inr d'"
  shows "(layer = None \<longrightarrow> current_step d' = PInt 0 \<and> \<not> just_reached_new_step d')
       \<and> (layer \<noteq> None \<longrightarrow>
            just_reached_new_step d' = (\<not> py_eq (current_step d') (current_step d)))
       \<and> kind d' = kind d \<and> offset d' = offset d \<and> step_size d' = step_size d \<and> count d' = count d"
  using assms
  by (auto simp: detector_handle_def calculate_step_def Let_def
           split: option.splits sum.splits detector_kind.splits if_splits)

lemma detector_handle_layer:
  assumes "kind d = LayerHeightDetector"
    and "offset d = PInt off" and "step_size d = PInt s" and "0 < s"
    and "count d = PInt n" and "0 \<le> n"
  shows "\<exists>d' k. detector_handle d h layer = Inr d' \<and> current_step d' = PInt k \<and> 0 \<le> k \<and> k \<le> n"
proof (cases layer)
  case None
  with assms(6) show ?thesis by (simp add: detector_handle_def)
next
  case (Some l)
  define r where "r = \<lceil>max 0 (of_int (l - off + 1) :: rat) / of_int s\<rceil>"
  have "0 \<le> max 0 (of_int (l - off + 1) :: rat) / of_int s"
    using assms(4) by (intro divide_nonneg_pos) simp_all
  then have r0: "0 \<le> r" unfolding r_def by (simp add: ceiling_le_iff le_ceiling_iff)
  have n: "normalize (PInt l) (PInt off) (PInt s) = Inr (PInt r)"
    unfolding r_def by (rule normalize_int [OF assms(4)])
  have m: "py_min (PInt r) (PInt n) = PInt (min r n)"
    by (simp add: py_min_def py_lt_def min_def)
  from Some assms(1,2,3,5) n m
  have "detector_handle d h layer
          = Inr (d\<lparr>just_reached_new_step := \<not> py_eq (PInt (min r n)) (current_step d),
                  current_step := PInt (min r n)\<rparr>)"
    by (simp add: detector_handle_def calculate_step_def Let_def)
  moreover from r0 assms(6) have "0 \<le> min r n" "min r n \<le> n" by simp_all
  ultimately show ?thesis by auto
qed

text \<open>
  C6, amended: after a call of \<open>handle\<close> that returns, in either variant, with no layer
  known the step is 0 and the flag is false, and with a layer known the flag is true exactly
  when the newly committed step differs from the previously committed one; the configuration
  is unchanged. In the layer variant with an integer offset, a positive integer step size
  and an integer \<open>stepCount \<ge> 0\<close>, the call returns and the committed step is an integer of
  the interval \<open>[0, stepCount]\<close>.
\<close>

theorem detector_handle_step:
  "(\<forall>d'. detector_handle d h layer = Inr d' \<longrightarrow>
       (layer = None \<longrightarrow> current_step d' = PInt 0 \<and> \<not> just_reached_new_step d')
     \<and> (layer \<noteq> None \<longrightarrow>
          just_reached_new_step d' = (\<not> py_eq (current_step d') (current_step d)))
     \<and> kind d' = kind d \<and> offset d' = offset d \<and> step_size d' = step_size d \<and> count d' = count d)
   \<and> (\<forall>off s n. kind d = LayerHeightDetector \<and> offset d = PInt off \<and> step_size d = PInt s
          \<and> 0 < s \<and> count d = PInt n \<and> 0 \<le> n \<longrightarrow>
       (\<exists>d' k. detector_handle d h layer = Inr d' \<and> current_step d' = PInt k
             \<and> 0 \<le> k \<and> k \<le> n))"
  using detector_handle_Inr [of d h layer] detector_handle_layer [of d _ _ _ h layer] by blast

theorem detector_handle_step_witness:
  "\<exists>d'. detector_handle (HeightDetector_init LayerHeightDetector (PInt 1) (PInt 2) (PInt 5))
            PrinterHead_init (Some 10) = Inr d'
         \<and> current_step d' = PInt 5 \<and> just_reached_new_step d'
         \<and> (\<exists>k. current_step d' = PInt k \<and> 0 \<le> k \<and> k \<le> 5)"
  using detector_handle_step [of "HeightDetector_init LayerHeightDetector (PInt 1) (PInt 2) (PInt 5)"
      PrinterHead_init "Some 10"]
  by (simp add: HeightDetector_init_def detector_handle_def calculate_step_def normalize_def
        py_max_def py_min_def py_lt_def py_eq_def Let_def)

subsection \<open>State across blocks and calls\<close>

text \<open>
  C9, as stated, fails: the head and the detector belong to the \<open>CalibrationProcessor\<close> and
  live across blocks and across calls. A second call on the same object with the same block
  finds the step already at 1 and inserts nothing, and within one call the second of two
  equal blocks is emitted without the line its first copy received.
\<close>

theorem process_data_state_carries:
  "process_data
     (CalibrationProcessor_init (HeightDetector_init LayerHeightDetector (PInt 1) (PInt 1) (PInt 5))
        [HotendTempProcessor (PInt 190) (PInt 10)])
     ['';LAYER:1\<newline>'']
   = Inr (\<lparr>height_detector =
             \<lparr>kind = LayerHeightDetector, offset = PInt 1, step_size = PInt 1, count = PInt 5,
              just_reached_new_step = True, current_step = PInt 1, last_z = PInt 0\<rparr>,
           processors = [HotendTempProcessor (PInt 190) (PInt 10)], head = PrinterHead_init\<rparr>,
          [''M104 S190\<newline>;LAYER:1\<newline>''])
   \<and> process_data
     \<lparr>height_detector =
        \<lparr>kind = LayerHeightDetector, offset = PInt 1, step_size = PInt 1, count = PInt 5,
         just_reached_new_step = True, current_step = PInt 1, last_z = PInt 0\<rparr>,
      processors = [HotendTempProcessor (PInt 190) (PInt 10)], head = PrinterHead_init\<rparr>
     ['';LAYER:1\<newline>'']
   = Inr (\<lparr>height_detector =
             \<lparr>kind = LayerHeightDetector, offset = PInt 1, step_size = PInt 1, count = PInt 5,
              just_reached_new_step = False, current_step = PInt 1, last_z = PInt 0\<rparr>,
           processors = [HotendTempProcessor (PInt 190) (PInt 10)], head = PrinterHead_init\<rparr>,
          ['';LAYER:1\<newline>''])
   \<and> map_sum id snd (process_data
     (CalibrationProcessor_init (HeightDetector_init LayerHeightDetector (PInt 1) (PInt 1) (PInt 5))
        [HotendTempProcessor (PInt 190) (PInt 10)])
     ['';LAYER:1\<newline>'', '';LAYER:1\<newline>''])
   = Inr [''M104 S190\<newline>;LAYER:1\<newline>'', '';LAYER:1\<newline>'']"
  by code_simp

text \<open>
  C9, amended: \<open>process_data\<close> is a function of the blocks, the configuration and the state
  of the object at the call (printer head and step detector). That state is carried from
  block to block and from call to call: processing the blocks \<open>a\<close> followed by \<open>b\<close> is
  processing \<open>a\<close>, then \<open>b\<close> on the object as the first call left it, and an error in
  either part is the error of the whole.
\<close>

theorem process_data_append:
  "process_data cp (a @ b) =
     (case process_data cp a of
        Inl e \<Rightarrow> Inl e
      | Inr (cp1, out1) \<Rightarrow>
          (case process_data cp1 b of
             Inl e \<Rightarrow> Inl e
           | Inr (cp2, out2) \<Rightarrow> Inr (cp2, out1 @ out2)))"
  by (induction a arbitrary: cp) (auto split: sum.splits)

subsection \<open>The hotend-temperature processor on one block\<close>

lemma process_line_blank: "strip raw = [] \<Longrightarrow> process_line cp layer raw = Inr (cp, layer, [])"
  by (simp add: process_line_def)

text \<open>
  C1, as stated, fails. In one block the layer is fixed by the first marker, so the step
  never changes at \<open>;LAYER:3\<close> and no second command is inserted; and the command for
  layer 1 is inserted before the marker line itself, the line at which the step becomes 1,
  not before the first G1 line. When the two layers come as two blocks, the command before
  \<open>;LAYER:3\<close> is \<open>M104 S210\<close>: with offset 1 and step size 1, layer 3 is step 3.
\<close>

theorem hotend_one_block_two_markers:
  "map_sum id snd (process_data
     (CalibrationProcessor_init (HeightDetector_init LayerHeightDetector (PInt 1) (PInt 1) (PInt 5))
        [HotendTempProcessor (PInt 190) (PInt 10)])
     ['';LAYER:1\<newline>G1 X1 E1\<newline>;LAYER:3\<newline>G1 X3 E3\<newline>''])
   = Inr [''M104 S190\<newline>;LAYER:1\<newline>G1 X1 E1\<newline>;LAYER:3\<newline>G1 X3 E3\<newline>'']
   \<and> map_sum id snd (process_data
     (CalibrationProcessor_init (HeightDetector_init LayerHeightDetector (PInt 1) (PInt 1) (PInt 5))
        [HotendTempProcessor (PInt 190) (PInt 10)])
     ['';LAYER:1\<newline>G1 X1 E1\<newline>'', '';LAYER:3\<newline>G1 X3 E3\<newline>''])
   = Inr [''M104 S190\<newline>;LAYER:1\<newline>G1 X1 E1\<newline>'', ''M104 S210\<newline>;LAYER:3\<newline>G1 X3 E3\<newline>'']"
  by code_simp

lemma hotend_190: "new_str SET_HOTENT_TEMP_COMMAND [(''S'', Some (PInt 190))] = Inr ''M104 S190''"
  by code_simp

lemma hotend_line_no_layer:
  assumes "height_detector cp = \<lparr>kind = LayerHeightDetector, offset = PInt 1, step_size = PInt 1,
      count = PInt 5, just_reached_new_step = False, current_step = PInt 0, last_z = PInt 0\<rparr>"
    and "processors cp = [HotendTempProcessor (PInt 190) (PInt 10)]"
    and "strip raw \<noteq> []" and "check_layer (strip raw) = None"
  shows "process_line cp None raw
           = Inr (cp\<lparr>head := head_handle (head cp) (strip raw)\<rparr>, None, [strip raw])"
  using assms
  by (simp add: process_line_def Let_def detector_handle_def Marker_init_def single_command_def)

lemma hotend_line_first_layer:
  assumes "height_detector cp = \<lparr>kind = LayerHeightDetector, offset = PInt 1, step_size = PInt 1,
      count = PInt 5, just_reached_new_step = False, current_step = PInt 0, last_z = PInt 0\<rparr>"
    and "processors cp = [HotendTempProcessor (PInt 190) (PInt 10)]"
    and "strip raw \<noteq> []" and "check_layer (strip raw) = Some 1"
  shows "process_line cp None raw
           = Inr (cp\<lparr>height_detector := \<lparr>kind = LayerHeightDetector, offset = PInt 1,
                     step_size = PInt 1, count = PInt 5, just_reached_new_step = True,
                     current_step = PInt 1, last_z = PInt 0\<rparr>,
                   head := head_handle (head cp) (strip raw)\<rparr>, Some 1,
                  [''M104 S190'', strip raw])"
  using assms hotend_190
  by (simp add: process_line_def Let_def detector_handle_def calculate_step_def normalize_def
        py_max_def py_min_def py_lt_def py_eq_def Marker_init_def single_command_def
        get_current_value_def)

lemma hotend_line_later:
  assumes "height_detector cp = \<lparr>kind = LayerHeightDetector, offset = PInt 1, step_size = PInt 1,
      count = PInt 5, just_reached_new_step = f, current_step = PInt 1, last_z = PInt 0\<rparr>"
    and "processors cp = [HotendTempProcessor (PInt 190) (PInt 10)]"
    and "strip raw \<noteq> []"
  shows "process_line cp (Some 1) raw
           = Inr (cp\<lparr>height_detector := \<lparr>kind = LayerHeightDetector, offset = PInt 1,
                     step_size = PInt 1, count = PInt 5, just_reached_new_step = False,
                     current_step = PInt 1, last_z = PInt 0\<rparr>,
                   head := head_handle (head cp) (strip raw)\<rparr>, Some 1, [strip raw])"
  using assms
  by (simp add: process_line_def Let_def detector_handle_def calculate_step_def normalize_def
        py_max_def py_min_def py_lt_def py_eq_def Marker_init_def single_command_def)

lemma hotend_lines_later:
  assumes "height_detector cp = \<lparr>kind = LayerHeightDetector, offset = PInt 1, step_size = PInt 1,
      count = PInt 5, just_reached_new_step = f, current_step = PInt 1, last_z = PInt 0\<rparr>"
    and "processors cp = [HotendTempProcessor (PInt 190) (PInt 10)]"
  shows "\<exists>cp1. process_lines cp (Some 1) acc raws
           = Inr (cp1, acc @ filter (\<lambda>l. l \<noteq> []) (map strip raws))"
  using assms
proof (induction raws arbitrary: cp acc f)
  case Nil
  then show ?case by simp
next
  case (Cons raw raws)
  show ?case
  proof (cases "strip raw = []")
    case True
    with Cons.IH [OF Cons.prems, of acc] show ?thesis by (simp add: process_line_blank)
  next
    case False
    let ?cp = "cp\<lparr>height_detector := \<lparr>kind = LayerHeightDetector, offset = PInt 1,
                     step_size = PInt 1, count = PInt 5, just_reached_new_step = False,
                     current_step = PInt 1, last_z = PInt 0\<rparr>,
                   head := head_handle (head cp) (strip raw)\<rparr>"
    from Cons.prems(2) Cons.IH [of ?cp False "acc @ [strip raw]"] obtain cp1 where
      "process_lines ?cp (Some 1) (acc @ [strip raw]) raws
         = Inr (cp1, (acc @ [strip raw]) @ filter (\<lambda>l. l \<noteq> []) (map strip raws))" by auto
    with False hotend_line_later [OF Cons.prems False] show ?thesis by simp
  qed
qed

lemma hotend_lines:
  assumes "height_detector cp = \<lparr>kind = LayerHeightDetector, offset = PInt 1, step_size = PInt 1,
      count = PInt 5, just_reached_new_step = False, current_step = PInt 0, last_z = PInt 0\<rparr>"
    and "processors cp = [HotendTempProcessor (PInt 190) (PInt 10)]"
    and "filter (\<lambda>l. l \<noteq> []) (map strip raws) = pre @ [l1] @ post"
    and "\<forall>l\<in>set pre. check_layer l = None" and "check_layer l1 = Some 1"
  shows "\<exists>cp1. process_lines cp None acc raws
           = Inr (cp1, acc @ pre @ [''M104 S190'', l1] @ post)"
  using assms
proof (induction raws arbitrary: cp acc pre)
  case Nil
  then show ?case by simp
next
  case (Cons raw raws)
  show ?case
  proof (cases "strip raw = []")
    case True
    with Cons.prems(3) have "filter (\<lambda>l. l \<noteq> []) (map strip raws) = pre @ [l1] @ post" by simp
    from Cons.IH [OF Cons.prems(1,2) this Cons.prems(4,5), of acc] True show ?thesis
      by (simp add: process_line_blank)
  next
    case False
    with Cons.prems(3) have c: "strip raw # filter (\<lambda>l. l \<noteq> []) (map strip raws) = pre @ [l1] @ post"
      by simp
    show ?thesis
    proof (cases pre)
      case Nil
      with c have l1: "strip raw = l1" and p: "filter (\<lambda>l. l \<noteq> []) (map strip raws) = post" by simp_all
      let ?cp = "cp\<lparr>height_detector := \<lparr>kind = LayerHeightDetector, offset = PInt 1,
                     step_size = PInt 1, count = PInt 5, just_reached_new_step = True,
                     current_step = PInt 1, last_z = PInt 0\<rparr>,
                   head := head_handle (head cp) (strip raw)\<rparr>"
      from Cons.prems(5) l1 have "check_layer (strip raw) = Some 1" by simp
      from hotend_line_first_layer [OF Cons.prems(1,2) False this]
      have 1: "process_line cp None raw = Inr (?cp, Some 1, [''M104 S190'', strip raw])" .
      from Cons.prems(2) hotend_lines_later [of ?cp True "acc @ [''M104 S190'', strip raw]" raws]
      obtain cp1 where "process_lines ?cp (Some 1) (acc @ [''M104 S190'', strip raw]) raws
           = Inr (cp1, (acc @ [''M104 S190'', strip raw]) @ filter (\<lambda>l. l \<noteq> []) (map strip raws))"
        by auto
      with 1 Nil l1 p show ?thesis by simp
    next
      case (Cons l pre')
      with c have l: "strip raw = l" and p: "filter (\<lambda>l. l \<noteq> []) (map strip raws) = pre' @ [l1] @ post"
        by simp_all
      let ?cp = "cp\<lparr>head := head_handle (head cp) (strip raw)\<rparr>"
      from Cons.prems(4) Cons l have n: "check_layer (strip raw) = None"
        and n': "\<forall>l\<in>set pre'. check_layer l = None" by simp_all
      from hotend_line_no_layer [OF Cons.prems(1,2) False n]
      have 1: "process_line cp None raw = Inr (?cp, None, [strip raw])" .
      from Cons.prems(1,2) have "height_detector ?cp = \<lparr>kind = LayerHeightDetector, offset = PInt 1, step_size = PInt 1,
          count = PInt 5, just_reached_new_step = False, current_step = PInt 0, last_z = PInt 0\<rparr>"
        "processors ?cp = [HotendTempProcessor (PInt 190) (PInt 10)]" by simp_all
      from Cons.IH [OF this p n' Cons.prems(5), of "acc @ [strip raw]"] obtain cp1 where
        "process_lines ?cp None (acc @ [strip raw]) raws
           = Inr (cp1, (acc @ [strip raw]) @ pre' @ [''M104 S190'', l1] @ post)" by blast
      with 1 Cons l show ?thesis by simp
    qed
  qed
qed

text \<open>
  C1, amended: for a single block on a fresh pipeline with only the hotend-temperature
  processor (start 190, increment 10, layer detector with offset 1, step size 1, 5 steps),
  the first of whose layer markers is \<open>;LAYER:1\<close>, the output is the trimmed non-blank lines
  of the block in order, with the one line \<open>M104 S190\<close> inserted immediately before that
  marker line and nothing else inserted, whatever follows (a marker \<open>;LAYER:3\<close> included).
\<close>

theorem hotend_single_block:
  assumes "clean_lines grp = pre @ [l1] @ post"
    and "\<forall>l\<in>set pre. check_layer l = None" and "check_layer l1 = Some 1"
  shows "\<exists>cp1. process_data
           (CalibrationProcessor_init
              (HeightDetector_init LayerHeightDetector (PInt 1) (PInt 1) (PInt 5))
              [HotendTempProcessor (PInt 190) (PInt 10)]) [grp]
         = Inr (cp1, [join ''\<newline>'' (pre @ [''M104 S190'', l1] @ post) @ ''\<newline>''])"
proof -
  let ?cp = "CalibrationProcessor_init
              (HeightDetector_init LayerHeightDetector (PInt 1) (PInt 1) (PInt 5))
              [HotendTempProcessor (PInt 190) (PInt 10)]"
  have "height_detector ?cp = \<lparr>kind = LayerHeightDetector, offset = PInt 1, step_size = PInt 1,
      count = PInt 5, just_reached_new_step = False, current_step = PInt 0, last_z = PInt 0\<rparr>"
    "processors ?cp = [HotendTempProcessor (PInt 190) (PInt 10)]"
    by (simp_all add: CalibrationProcessor_init_def HeightDetector_init_def)
  from hotend_lines [OF this assms(1) [unfolded clean_lines_def] assms(2,3), of "[]"]
  obtain cp1 where "process_lines ?cp None [] (split (CHR ''\<newline>'') grp)
           = Inr (cp1, pre @ [''M104 S190'', l1] @ post)" by auto
  then show ?thesis by (simp add: process_group_def)
qed

theorem hotend_single_block_witness:
  "\<exists>cp1. process_data
      (CalibrationProcessor_init
         (HeightDetector_init LayerHeightDetector (PInt 1) (PInt 1) (PInt 5))
         [HotendTempProcessor (PInt 190) (PInt 10)])
      [''G28\<newline>  ;LAYER:1\<newline>G1 X1 E1\<newline>\<newline>;LAYER:3\<newline>G1 X3 E3\<newline>'']
    = Inr (cp1, [''G28\<newline>M104 S190\<newline>;LAYER:1\<newline>G1 X1 E1\<newline>;LAYER:3\<newline>G1 X3 E3\<newline>''])"
proof -
  have c: "clean_lines ''G28\<newline>  ;LAYER:1\<newline>G1 X1 E1\<newline>\<newline>;LAYER:3\<newline>G1 X3 E3\<newline>''
             = [''G28''] @ ['';LAYER:1''] @ [''G1 X1 E1'', '';LAYER:3'', ''G1 X3 E3'']"
    by code_simp
  have n: "\<forall>l\<in>set [''G28'']. check_layer l = None" by code_simp
  have l: "check_layer '';LAYER:1'' = Some 1" by code_simp
  from hotend_single_block [OF c n l] show ?thesis by (simp del: process_data.simps)
qed

subsection \<open>Round trips of numbers through text\<close>

lemma digit_chars: "map digit_char [0, 1, 2, 3, 4, 5, 6, 7, 8, 9] = ''0123456789''"
  by code_simp

lemma digit_char_cases:
  assumes "d < 10"
  shows "digit_char d \<in> set ''0123456789''"
proof -
  from assms have "d \<in> set [0, 1, 2, 3, 4, 5, 6, 7, 8, 9]" by auto
  then have "digit_char d \<in> digit_char ` set [0, 1, 2, 3, 4, 5, 6, 7, 8, 9]"
    by (rule imageI)
  then have "digit_char d \<in> set (map digit_char [0, 1, 2, 3, 4, 5, 6, 7, 8, 9])"
    by (simp only: set_map)
  then show ?thesis by (simp only: digit_chars)
qed

lemma is_digit_digit_char [simp]: "d < 10 \<Longrightarrow> is_digit (digit_char d)"
  using digit_char_cases by (simp add: is_digit_def)

lemma digit_val_digit_char [simp]: "d < 10 \<Longrightarrow> digit_val (digit_char d) = d"
  by (simp add: digit_val_def digit_char_def)

lemma nat_of_digits_append:
  "nat_of_digits (xs @ ys) = nat_of_digits xs * 10 ^ length ys + nat_of_digits ys"
proof (induction ys rule: rev_induct)
  case Nil
  then show ?case by (simp add: nat_of_digits_def)
next
  case (snoc y ys)
  have "nat_of_digits (xs @ ys @ [y]) = 10 * nat_of_digits (xs @ ys) + digit_val y"
    by (simp add: nat_of_digits_def)
  also have "\<dots> = 10 * (nat_of_digits xs * 10 ^ length ys + nat_of_digits ys) + digit_val y"
    by (simp only: snoc.IH)
  also have "\<dots> = nat_of_digits xs * 10 ^ length (ys @ [y]) + nat_of_digits (ys @ [y])"
    by (simp add: nat_of_digits_def algebra_simps)
  finally show ?case by simp
qed

lemma nat_of_digits_single [simp]: "nat_of_digits [c] = digit_val c"
  by (simp add: nat_of_digits_def)

lemma nat_of_digits_Nil [simp]: "nat_of_digits [] = 0"
  by (simp add: nat_of_digits_def)

lemma str_of_nat_digits: "list_all is_digit (str_of_nat n)"
  by (induction n rule: str_of_nat.induct) (subst str_of_nat.simps, simp)

lemma str_of_nat_not_Nil [simp]: "str_of_nat n \<noteq> []"
  by (subst str_of_nat.simps) simp

lemma nat_of_digits_str_of_nat [simp]: "nat_of_digits (str_of_nat n) = n"
proof (induction n rule: str_of_nat.induct)
  case (1 n)
  show ?case
  proof (cases "n < 10")
    case True
    then show ?thesis by (subst str_of_nat.simps) simp
  next
    case False
    with 1 have "nat_of_digits (str_of_nat (n div 10)) = n div 10" by simp
    with False show ?thesis
      by (subst str_of_nat.simps) (simp add: nat_of_digits_append)
  qed
qed

lemma digits_value_str_of_nat [simp]: "digits_value (str_of_nat n) = Some n"
  by (simp add: digits_value_def str_of_nat_digits)

lemma is_digit_not_space: "is_digit c \<Longrightarrow> \<not> is_space c"
  by (auto simp: is_digit_def is_space_def)

lemma strip_id:
  assumes "s \<noteq> []" and "\<not> is_space (hd s)" and "\<not> is_space (last s)"
  shows "strip s = s"
proof -
  from assms have 1: "dropWhile is_space s = s" by (simp add: dropWhile_eq_self_iff)
  from assms have "dropWhile is_space (rev s) = rev s"
    by (simp add: dropWhile_eq_self_iff hd_rev)
  with 1 show ?thesis by (simp add: strip_def)
qed

lemma hd_str_of_nat_digit: "is_digit (hd (str_of_nat n))"
  using str_of_nat_digits [of n] str_of_nat_not_Nil [of n]
  by (cases "str_of_nat n") simp_all

lemma last_str_of_nat_digit: "is_digit (last (str_of_nat n))"
  using str_of_nat_digits [of n] str_of_nat_not_Nil [of n]
  by (metis last_in_set list_all_iff)

lemma split_sign_digit: "s \<noteq> [] \<Longrightarrow> is_digit (hd s) \<Longrightarrow> split_sign s = (False, s)"
  by (cases s) (auto simp: is_digit_def)

lemma int_of_str_str_of_int [simp]: "int_of_str (str_of_int i) = Inr i"
proof (cases "i < 0")
  case True
  have "strip (CHR ''-'' # str_of_nat (nat (- i))) = CHR ''-'' # str_of_nat (nat (- i))"
  proof (rule strip_id)
    show "\<not> is_space (hd (CHR ''-'' # str_of_nat (nat (- i))))" by (simp add: is_space_def)
    show "\<not> is_space (last (CHR ''-'' # str_of_nat (nat (- i))))"
      by (simp add: is_digit_not_space last_str_of_nat_digit)
  qed simp
  with True show ?thesis by (simp add: int_of_str_def str_of_int_def)
next
  case False
  have "strip (str_of_nat (nat i)) = str_of_nat (nat i)"
    by (rule strip_id) (simp_all add: is_digit_not_space last_str_of_nat_digit hd_str_of_nat_digit)
  with False show ?thesis
    by (simp add: int_of_str_def str_of_int_def split_sign_digit hd_str_of_nat_digit)
qed

lemma nat_of_digits_zeros [simp]: "nat_of_digits (replicate k (CHR ''0'')) = 0"
proof (induction k)
  case 0
  then show ?case by simp
next
  case (Suc k)
  have "nat_of_digits (replicate (Suc k) (CHR ''0'')) = nat_of_digits ([CHR ''0''] @ replicate k (CHR ''0''))"
    by simp
  also have "\<dots> = 0" unfolding nat_of_digits_append using Suc by (simp add: digit_val_def)
  finally show ?case .
qed

lemma nat_of_digits_trailing_zeros:
  "nat_of_digits (s @ replicate k (CHR ''0'')) = nat_of_digits s * 10 ^ k"
  by (simp add: nat_of_digits_append)

lemma nat_of_digits_leading_zeros [simp]:
  "nat_of_digits (replicate k (CHR ''0'') @ s) = nat_of_digits s"
  by (simp add: nat_of_digits_append)

lemma strip_zeros_decomp: "\<exists>k. s = strip_zeros s @ replicate k (CHR ''0'')"
proof -
  have "rev s = takeWhile (\<lambda>c. c = CHR ''0'') (rev s) @ dropWhile (\<lambda>c. c = CHR ''0'') (rev s)"
    by simp
  moreover have "takeWhile (\<lambda>c. c = CHR ''0'') (rev s)
      = replicate (length (takeWhile (\<lambda>c. c = CHR ''0'') (rev s))) (CHR ''0'')"
    by (rule replicate_length_same [symmetric]) (auto dest: set_takeWhileD)
  ultimately have "rev s = replicate (length (takeWhile (\<lambda>c. c = CHR ''0'') (rev s))) (CHR ''0'')
      @ dropWhile (\<lambda>c. c = CHR ''0'') (rev s)" by simp
  then have "rev (rev s) = rev (replicate (length (takeWhile (\<lambda>c. c = CHR ''0'') (rev s))) (CHR ''0'')
      @ dropWhile (\<lambda>c. c = CHR ''0'') (rev s))" by (rule arg_cong)
  then show ?thesis by (auto simp: strip_zeros_def)
qed

lemma strip_zeros_digits: "list_all is_digit s \<Longrightarrow> list_all is_digit (strip_zeros s)"
  by (auto simp: strip_zeros_def list_all_iff dest: set_dropWhileD)

lemma strip_zeros_last: "strip_zeros s \<noteq> [] \<Longrightarrow> last (strip_zeros s) \<noteq> CHR ''0''"
  using hd_dropWhile [of "\<lambda>c. c = CHR ''0''" "rev s"]
  by (simp add: strip_zeros_def last_rev)

lemma length_str_of_nat: "n < 10 ^ k \<Longrightarrow> 0 < k \<Longrightarrow> length (str_of_nat n) \<le> k"
proof (induction n arbitrary: k rule: str_of_nat.induct)
  case (1 n)
  show ?case
  proof (cases "n < 10")
    case True
    with 1(3) show ?thesis by (subst str_of_nat.simps) simp
  next
    case False
    with 1(2) have k: "1 < k" by (cases "k = 1") (use 1(3) in auto)
    then obtain j where j: "k = Suc j" "0 < j" by (cases k) auto
    with 1(2) have "n div 10 < 10 ^ j" by (simp add: less_mult_imp_div_less mult.commute)
    from 1(1) [OF False this j(2)] False j show ?thesis
      by (subst str_of_nat.simps) simp
  qed
qed

lemma pad5_props:
  assumes "r < 100000"
  shows "length (pad5 r) = 5" and "list_all is_digit (pad5 r)" and "nat_of_digits (pad5 r) = r"
proof -
  from assms have "length (str_of_nat r) \<le> 5" by (intro length_str_of_nat) simp_all
  then show "length (pad5 r) = 5" by (simp add: pad5_def Let_def)
  have "list_all is_digit (replicate k (CHR ''0''))" for k
    by (simp add: list_all_iff is_digit_def)
  then show "list_all is_digit (pad5 r)"
    using str_of_nat_digits [of r] by (simp add: pad5_def Let_def)
  show "nat_of_digits (pad5 r) = r" by (simp add: pad5_def Let_def)
qed

lemma not_exp_digit: "is_digit c \<Longrightarrow> \<not> is_exp_mark c"
  by (auto simp: is_digit_def is_exp_mark_def)

lemma takeWhile_list_all: "list_all P xs \<Longrightarrow> takeWhile P xs = xs"
  by (simp add: list_all_iff)

lemma dropWhile_list_all: "list_all P xs \<Longrightarrow> dropWhile P xs = []"
  by (simp add: list_all_iff)

lemma takeWhile_stop: "list_all P xs \<Longrightarrow> \<not> P y \<Longrightarrow> takeWhile P (xs @ y # ys) = xs"
  by (simp add: list_all_iff)

lemma dropWhile_stop: "list_all P xs \<Longrightarrow> \<not> P y \<Longrightarrow> dropWhile P (xs @ y # ys) = y # ys"
  by (simp add: list_all_iff)

lemma decimal_value_int:
  "list_all is_digit ip \<Longrightarrow> ip \<noteq> [] \<Longrightarrow> decimal_value ip = Some (of_nat (nat_of_digits ip))"
  by (simp add: decimal_value_def takeWhile_list_all dropWhile_list_all)

lemma decimal_value_point:
  assumes "list_all is_digit ip" and "list_all is_digit fp" and "ip \<noteq> [] \<or> fp \<noteq> []"
  shows "decimal_value (ip @ CHR ''.'' # fp)
           = Some (of_nat (nat_of_digits ip) + of_nat (nat_of_digits fp) / 10 ^ length fp)"
proof -
  have d: "\<not> is_digit (CHR ''.'')" by (simp add: is_digit_def)
  from assms show ?thesis
    by (simp add: decimal_value_def takeWhile_stop [OF assms(1) d] dropWhile_stop [OF assms(1) d])
qed

lemma frac_value:
  assumes "r < 100000"
  defines "fp \<equiv> strip_zeros (pad5 r)"
  defines "f \<equiv> (if fp = [] then ''0'' else fp)"
  shows "list_all is_digit f" and "f \<noteq> []" and "is_digit (last f)"
    and "(of_nat (nat_of_digits f) :: rat) / 10 ^ length f = of_nat r / 100000"
proof -
  from strip_zeros_decomp [of "pad5 r"] obtain k where k: "pad5 r = fp @ replicate k (CHR ''0'')"
    by (auto simp: fp_def)
  have dfp: "list_all is_digit fp"
    unfolding fp_def by (rule strip_zeros_digits) (rule pad5_props [OF assms(1)])
  then show df: "list_all is_digit f" by (simp add: f_def is_digit_def)
  show ne: "f \<noteq> []" by (simp add: f_def)
  from df ne show "is_digit (last f)" by (metis last_in_set list_all_iff)
  from k pad5_props [OF assms(1)] have len: "length fp + k = 5"
    and val: "r = nat_of_digits fp * 10 ^ k"
    by (metis length_append length_replicate, metis nat_of_digits_trailing_zeros)
  show "(of_nat (nat_of_digits f) :: rat) / 10 ^ length f = of_nat r / 100000"
  proof (cases "fp = []")
    case True
    with val show ?thesis by (simp add: f_def digit_val_def)
  next
    case False
    have e: "(100000 :: rat) = 10 ^ length fp * 10 ^ k"
      using len by (simp add: power_add [symmetric])
    have "(of_nat r :: rat) / 100000
            = (of_nat (nat_of_digits fp) * 10 ^ k) / (10 ^ length fp * 10 ^ k)"
      unfolding e by (simp add: val)
    also have "\<dots> = of_nat (nat_of_digits fp) / 10 ^ length fp" by simp
    finally show ?thesis using False by (simp add: f_def)
  qed
qed

lemma exponent_value_Nil [simp]: "exponent_value [] = Some 0"
  by (simp add: exponent_value_def)

lemma exponent_value_plus [simp]: "exponent_value (CHR ''e'' # CHR ''+'' # str_of_nat k) = Some (int k)"
  by (simp add: exponent_value_def)

lemma exponent_value_m5 [simp]: "exponent_value ''e-05'' = Some (- 5)"
  by (simp add: exponent_value_def digits_value_def is_digit_def nat_of_digits_def digit_val_def)

lemma str_of_nat_small: "m < 10 \<Longrightarrow> str_of_nat m = [digit_char m]"
  by (subst str_of_nat.simps) simp

lemma split_div_mod_rat: "(of_nat (m div 100000) :: rat) + of_nat (m mod 100000) / 100000 = of_nat m / 100000"
proof -
  have "(of_nat m :: rat) = of_nat (m div 100000 * 100000 + m mod 100000)" by simp
  also have "\<dots> = of_nat (m div 100000) * 100000 + of_nat (m mod 100000)"
    by (simp only: of_nat_add of_nat_mult of_nat_numeral)
  finally show ?thesis by (simp add: field_simps)
qed

lemma repr_digits_small:
  assumes "0 < m" and "m < 10"
  shows "repr_digits m = digit_char m # ''e-05''"
  using assms by (simp add: repr_digits_def Let_def str_of_nat_small)

lemma repr_digits_fixed:
  assumes "10 \<le> m" and "\<not> 16 < length (str_of_nat (m div 100000))"
  shows "repr_digits m = str_of_nat (m div 100000) @ CHR ''.'' #
           (if strip_zeros (pad5 (m mod 100000)) = [] then ''0'' else strip_zeros (pad5 (m mod 100000)))"
  using assms by (simp add: repr_digits_def Let_def)

lemma repr_digits_sci:
  assumes "10 \<le> m" and "16 < length (str_of_nat (m div 100000))"
  shows "repr_digits m =
     take 1 (strip_zeros (str_of_nat (m div 100000) @ strip_zeros (pad5 (m mod 100000))))
     @ (if drop 1 (strip_zeros (str_of_nat (m div 100000) @ strip_zeros (pad5 (m mod 100000)))) = [] then []
        else CHR ''.'' # drop 1 (strip_zeros (str_of_nat (m div 100000) @ strip_zeros (pad5 (m mod 100000)))))
     @ CHR ''e'' # CHR ''+'' # str_of_nat (length (str_of_nat (m div 100000)) - 1)"
  using assms by (simp add: repr_digits_def Let_def)

lemma digits_not_exp: "list_all is_digit xs \<Longrightarrow> list_all (\<lambda>c. \<not> is_exp_mark c) xs"
  by (simp add: list_all_iff not_exp_digit)

lemma value_small:
  assumes "0 < m" and "m < 10"
  shows "decimal_value (takeWhile (\<lambda>c. \<not> is_exp_mark c) (repr_digits m)) = Some (of_nat m)
     \<and> exponent_value (dropWhile (\<lambda>c. \<not> is_exp_mark c) (repr_digits m)) = Some (- 5)"
proof -
  have d: "is_digit (digit_char m)" using assms by simp
  have e: "is_exp_mark (CHR ''e'')" by (simp add: is_exp_mark_def)
  have t: "takeWhile (\<lambda>c. \<not> is_exp_mark c) (repr_digits m) = [digit_char m]"
    and r: "dropWhile (\<lambda>c. \<not> is_exp_mark c) (repr_digits m) = ''e-05''"
    using not_exp_digit [OF d] e by (simp_all add: repr_digits_small [OF assms])
  have "decimal_value [digit_char m] = Some (of_nat m)"
    using decimal_value_int [of "[digit_char m]"] d assms by simp
  then show ?thesis unfolding t r by simp
qed

lemma value_fixed:
  assumes "10 \<le> m" and "\<not> 16 < length (str_of_nat (m div 100000))"
  shows "decimal_value (takeWhile (\<lambda>c. \<not> is_exp_mark c) (repr_digits m)) = Some (of_nat m / 100000)
     \<and> exponent_value (dropWhile (\<lambda>c. \<not> is_exp_mark c) (repr_digits m)) = Some 0"
proof -
  let ?ip = "str_of_nat (m div 100000)"
  let ?f = "if strip_zeros (pad5 (m mod 100000)) = [] then ''0'' else strip_zeros (pad5 (m mod 100000))"
  have r: "m mod 100000 < 100000" by simp
  note fv = frac_value [OF r]
  have all: "list_all (\<lambda>c. \<not> is_exp_mark c) (?ip @ CHR ''.'' # ?f)"
    using digits_not_exp [OF str_of_nat_digits [of "m div 100000"]] digits_not_exp [OF fv(1)]
    by (simp add: is_exp_mark_def)
  have "decimal_value (?ip @ CHR ''.'' # ?f)
          = Some (of_nat (m div 100000) + of_nat (m mod 100000) / 100000)"
    using decimal_value_point [of ?ip ?f] str_of_nat_digits [of "m div 100000"] fv(1) fv(4)
    by simp
  then have "decimal_value (?ip @ CHR ''.'' # ?f) = Some (of_nat m / 100000)"
    by (simp only: split_div_mod_rat)
  then show ?thesis
    unfolding repr_digits_fixed [OF assms] takeWhile_list_all [OF all] dropWhile_list_all [OF all]
    by simp
qed

lemma decimal_value_mantissa:
  assumes "list_all is_digit ds" and "ds \<noteq> []"
  shows "decimal_value (take 1 ds @ (if drop 1 ds = [] then [] else CHR ''.'' # drop 1 ds))
           = Some (of_nat (nat_of_digits ds) / 10 ^ (length ds - 1))"
proof (cases "drop 1 ds = []")
  case True
  then have "take 1 ds = ds" by (metis append_Nil2 append_take_drop_id)
  with True assms show ?thesis by (simp add: decimal_value_int)
next
  case False
  have d1: "list_all is_digit (take 1 ds)" and d2: "list_all is_digit (drop 1 ds)"
    using assms(1) by (auto simp: list_all_iff dest: in_set_takeD in_set_dropD)
  have "nat_of_digits ds = nat_of_digits (take 1 ds @ drop 1 ds)" by simp
  also have "\<dots> = nat_of_digits (take 1 ds) * 10 ^ (length ds - 1) + nat_of_digits (drop 1 ds)"
    by (simp only: nat_of_digits_append length_drop)
  finally have "(of_nat (nat_of_digits ds) :: rat) / 10 ^ (length ds - 1)
      = of_nat (nat_of_digits (take 1 ds)) + of_nat (nat_of_digits (drop 1 ds)) / 10 ^ (length ds - 1)"
    by (simp add: field_simps)
  with False decimal_value_point [OF d1 d2] show ?thesis by simp
qed

lemma value_sci:
  assumes "10 \<le> m" and "16 < length (str_of_nat (m div 100000))"
  shows "\<exists>N a. decimal_value (takeWhile (\<lambda>c. \<not> is_exp_mark c) (repr_digits m)) = Some (of_nat N / 10 ^ a)
     \<and> exponent_value (dropWhile (\<lambda>c. \<not> is_exp_mark c) (repr_digits m))
         = Some (int (length (str_of_nat (m div 100000)) - 1))
     \<and> (of_nat N / 10 ^ a :: rat) * 10 ^ (length (str_of_nat (m div 100000)) - 1) = of_nat m / 100000"
proof -
  let ?ip = "str_of_nat (m div 100000)"
  let ?fp = "strip_zeros (pad5 (m mod 100000))"
  let ?ds = "strip_zeros (?ip @ ?fp)"
  let ?M = "take 1 ?ds @ (if drop 1 ?ds = [] then [] else CHR ''.'' # drop 1 ?ds)"
  let ?L = "length ?ip"
  have r: "m mod 100000 < 100000" by simp
  note pp = pad5_props [OF r]
  obtain k0 where k0: "pad5 (m mod 100000) = ?fp @ replicate k0 (CHR ''0'')"
    using strip_zeros_decomp by blast
  obtain k1 where k1: "?ip @ ?fp = ?ds @ replicate k1 (CHR ''0'')"
    using strip_zeros_decomp by blast
  have whole: "?ip @ pad5 (m mod 100000) = ?ds @ replicate (k1 + k0) (CHR ''0'')"
  proof -
    have "?ip @ pad5 (m mod 100000) = (?ip @ ?fp) @ replicate k0 (CHR ''0'')"
      using k0 by simp
    also have "\<dots> = (?ds @ replicate k1 (CHR ''0'')) @ replicate k0 (CHR ''0'')"
      using k1 by simp
    finally show ?thesis by (simp add: replicate_add)
  qed
  have "nat_of_digits (?ip @ pad5 (m mod 100000)) = m"
    by (simp add: nat_of_digits_append pp)
  with whole have m: "m = nat_of_digits ?ds * 10 ^ (k1 + k0)"
    by (simp add: nat_of_digits_trailing_zeros)
  from whole have "length (?ip @ pad5 (m mod 100000)) = length (?ds @ replicate (k1 + k0) (CHR ''0''))"
    by (rule arg_cong)
  then have len: "?L + 5 = length ?ds + (k1 + k0)" by (simp add: pp)
  from m assms(1) have ne: "?ds \<noteq> []" by (cases "?ds = []") auto
  have dfp: "list_all is_digit ?fp" by (rule strip_zeros_digits) (rule pp)
  have dds: "list_all is_digit ?ds"
    by (rule strip_zeros_digits) (simp add: str_of_nat_digits dfp)
  have dM: "list_all (\<lambda>c. \<not> is_exp_mark c) ?M"
    using digits_not_exp [OF dds]
    by (auto simp: list_all_iff is_exp_mark_def dest: in_set_takeD in_set_dropD)
  have e: "\<not> \<not> is_exp_mark (CHR ''e'')" by (simp add: is_exp_mark_def)
  have t: "takeWhile (\<lambda>c. \<not> is_exp_mark c) (repr_digits m) = ?M"
    unfolding repr_digits_sci [OF assms] by (simp only: append_assoc [symmetric] takeWhile_stop [OF dM e])
  have d: "dropWhile (\<lambda>c. \<not> is_exp_mark c) (repr_digits m) = CHR ''e'' # CHR ''+'' # str_of_nat (?L - 1)"
    unfolding repr_digits_sci [OF assms] by (simp only: append_assoc [symmetric] dropWhile_stop [OF dM e])
  have L: "0 < ?L" by simp
  have "(10 :: rat) ^ (?L - 1) * 10 ^ 5 = 10 ^ (k1 + k0) * 10 ^ (length ?ds - 1)"
  proof -
    have l1: "1 \<le> ?L" by (simp add: Suc_le_eq)
    have l2: "1 \<le> length ?ds" using ne by (simp add: Suc_le_eq)
    from len l1 l2 have "?L - 1 + 5 = (k1 + k0) + (length ?ds - 1)"
      by arith
    then show ?thesis by (simp only: power_add [symmetric])
  qed
  then have eq: "(of_nat (nat_of_digits ?ds) / 10 ^ (length ?ds - 1) :: rat) * 10 ^ (?L - 1) = of_nat m / 100000"
    by (subst m) (simp add: field_simps)
  from decimal_value_mantissa [OF dds ne] t d eq show ?thesis
    by (intro exI [of _ "nat_of_digits ?ds"] exI [of _ "length ?ds - 1"]) simp
qed

lemma repr_digits_zero: "repr_digits 0 = ''0.0''"
  by (simp add: repr_digits_def)

lemma value_zero:
  "decimal_value (takeWhile (\<lambda>c. \<not> is_exp_mark c) (repr_digits 0)) = Some 0
   \<and> exponent_value (dropWhile (\<lambda>c. \<not> is_exp_mark c) (repr_digits 0)) = Some 0"
  by (simp add: repr_digits_zero is_exp_mark_def decimal_value_def is_digit_def digit_val_def)

lemma repr_digits_value:
  "\<exists>mant x. decimal_value (takeWhile (\<lambda>c. \<not> is_exp_mark c) (repr_digits m)) = Some mant
     \<and> exponent_value (dropWhile (\<lambda>c. \<not> is_exp_mark c) (repr_digits m)) = Some x
     \<and> mant * 10 powi x = of_nat m / 100000"
proof -
  consider "m = 0" | "0 < m" "m < 10" | "10 \<le> m" "\<not> 16 < length (str_of_nat (m div 100000))"
    | "10 \<le> m" "16 < length (str_of_nat (m div 100000))" by linarith
  then show ?thesis
  proof cases
    case 1
    with value_zero show ?thesis
      by (intro exI [of _ 0]) simp
  next
    case 2
    have "(of_nat m :: rat) * 10 powi (- 5) = of_nat m / 100000"
      by (simp add: power_int_minus field_simps)
    with value_small [OF 2] show ?thesis
      by (intro exI [of _ "of_nat m"] exI [of _ "- 5"]) simp
  next
    case 3
    from value_fixed [OF 3] show ?thesis
      by (intro exI [of _ "of_nat m / 100000"] exI [of _ 0]) simp
  next
    case 4
    from value_sci [OF 4] obtain N a where
      "decimal_value (takeWhile (\<lambda>c. \<not> is_exp_mark c) (repr_digits m)) = Some (of_nat N / 10 ^ a)"
      "exponent_value (dropWhile (\<lambda>c. \<not> is_exp_mark c) (repr_digits m))
         = Some (int (length (str_of_nat (m div 100000)) - 1))"
      "(of_nat N / 10 ^ a :: rat) * 10 ^ (length (str_of_nat (m div 100000)) - 1) = of_nat m / 100000"
      by blast
    then show ?thesis
      by (intro exI [of _ "of_nat N / 10 ^ a"] exI [of _ "int (length (str_of_nat (m div 100000)) - 1)"])
        (simp add: power_int_of_nat)
  qed
qed

lemma repr_digits_ends:
  "repr_digits m \<noteq> [] \<and> is_digit (hd (repr_digits m)) \<and> is_digit (last (repr_digits m))"
proof -
  consider "m = 0" | "0 < m" "m < 10" | "10 \<le> m" "\<not> 16 < length (str_of_nat (m div 100000))"
    | "10 \<le> m" "16 < length (str_of_nat (m div 100000))" by linarith
  then show ?thesis
  proof cases
    case 1
    then show ?thesis by (simp add: repr_digits_zero is_digit_def)
  next
    case 2
    then have "is_digit (digit_char m)" by simp
    then show ?thesis by (simp add: repr_digits_small [OF 2] is_digit_def)
  next
    case 3
    have r: "m mod 100000 < 100000" by simp
    from frac_value(2,3) [OF r] hd_str_of_nat_digit [of "m div 100000"]
    show ?thesis by (simp add: repr_digits_fixed [OF 3])
  next
    case 4
    let ?ds = "strip_zeros (str_of_nat (m div 100000) @ strip_zeros (pad5 (m mod 100000)))"
    have r: "m mod 100000 < 100000" by simp
    have dds: "list_all is_digit ?ds"
      by (intro strip_zeros_digits) (simp add: str_of_nat_digits strip_zeros_digits pad5_props [OF r])
    have "?ds \<noteq> []"
    proof
      assume e: "?ds = []"
      obtain k where "str_of_nat (m div 100000) @ strip_zeros (pad5 (m mod 100000))
          = ?ds @ replicate k (CHR ''0'')" using strip_zeros_decomp by blast
      with e have "str_of_nat (m div 100000) @ strip_zeros (pad5 (m mod 100000)) = replicate k (CHR ''0'')"
        by simp
      then have "nat_of_digits (str_of_nat (m div 100000) @ strip_zeros (pad5 (m mod 100000))) = 0"
        by simp
      then have "m div 100000 = 0" by (simp add: nat_of_digits_append)
      with 4(2) show False by (simp add: str_of_nat_small)
    qed
    with dds have "is_digit (hd ?ds)" "hd (take 1 ?ds @ xs) = hd ?ds" for xs
      by (cases ?ds; simp)+
    with last_str_of_nat_digit show ?thesis by (simp add: repr_digits_sci [OF 4])
  qed
qed

lemma float_of_str_repr [simp]: "float_of_str (repr_float5 n) = Inr (of_int n / 100000)"
proof -
  let ?b = "repr_digits (nat \<bar>n\<bar>)"
  note e = repr_digits_ends [of "nat \<bar>n\<bar>"]
  from repr_digits_value [of "nat \<bar>n\<bar>"] obtain mant x where
    v: "decimal_value (takeWhile (\<lambda>c. \<not> is_exp_mark c) ?b) = Some mant"
    "exponent_value (dropWhile (\<lambda>c. \<not> is_exp_mark c) ?b) = Some x"
    "mant * 10 powi x = of_nat (nat \<bar>n\<bar>) / 100000" by blast
  show ?thesis
  proof (cases "n < 0")
    case True
    have "strip (CHR ''-'' # ?b) = CHR ''-'' # ?b"
    proof (rule strip_id)
      show "\<not> is_space (hd (CHR ''-'' # ?b))" by (simp add: is_space_def)
      show "\<not> is_space (last (CHR ''-'' # ?b))" using e by (simp add: is_digit_not_space)
    qed simp
    moreover have "(- mant) * 10 powi x = of_int n / 100000"
      using v(3) True by simp
    ultimately show ?thesis using True v(1,2)
      by (simp add: float_of_str_def repr_float5_def)
  next
    case False
    have "strip ?b = ?b" using e by (intro strip_id) (simp_all add: is_digit_not_space)
    moreover have "split_sign ?b = (False, ?b)" using e by (simp add: split_sign_digit)
    moreover have "mant * 10 powi x = of_int n / 100000"
      using v(3) False by simp
    ultimately show ?thesis using False v(1,2)
      by (simp add: float_of_str_def repr_float5_def)
  qed
qed

subsection \<open>Building, printing and parsing a command\<close>

lemma split_not_Nil [simp]: "split c s \<noteq> []"
  by (induction s) (auto split: list.splits)

lemma split_no_sep: "c \<notin> set xs \<Longrightarrow> split c xs = [xs]"
  by (induction xs) auto

lemma split_at_sep: "c \<notin> set xs \<Longrightarrow> split c (xs @ c # ys) = xs # split c ys"
  by (induction xs) auto

lemma join_Cons: "ys \<noteq> [] \<Longrightarrow> join sep (x # ys) = x @ sep @ join sep ys"
  by (cases ys) simp_all

lemma join_split: "join [c'] (split c s) = map (\<lambda>x. if x = c then c' else x) s"
proof (induction s)
  case Nil
  then show ?case by simp
next
  case (Cons x xs)
  show ?case
  proof (cases "x = c")
    case True
    with Cons show ?thesis by (simp add: join_Cons)
  next
    case False
    obtain w ws where w: "split c xs = w # ws" by (cases "split c xs") simp_all
    with Cons have "join [c'] (w # ws) = map (\<lambda>x. if x = c then c' else x) xs" by simp
    moreover have "join [c'] ((x # w) # ws) = x # join [c'] (w # ws)" by (cases ws) simp_all
    ultimately show ?thesis using False w by simp
  qed
qed

lemma tokens_of_words:
  assumes "w \<noteq> []" and "CHR '' '' \<notin> set w"
    and "\<forall>t\<in>set ts. t \<noteq> [] \<and> CHR '' '' \<notin> set t"
  shows "filter (\<lambda>t. t \<noteq> []) (split (CHR '' '') (w @ concat (map (\<lambda>t. CHR '' '' # t) ts))) = w # ts"
  using assms
proof (induction ts arbitrary: w)
  case Nil
  then show ?case by (simp add: split_no_sep)
next
  case (Cons t ts)
  have "split (CHR '' '') (w @ CHR '' '' # (t @ concat (map (\<lambda>t. CHR '' '' # t) ts)))
          = w # split (CHR '' '') (t @ concat (map (\<lambda>t. CHR '' '' # t) ts))"
    using Cons.prems(2) by (rule split_at_sep)
  moreover have "filter (\<lambda>t. t \<noteq> []) (split (CHR '' '') (t @ concat (map (\<lambda>t. CHR '' '' # t) ts))) = t # ts"
    using Cons.prems(3) by (intro Cons.IH) simp_all
  ultimately show ?case using Cons.prems(1) by simp
qed

lemma update_fresh: "k \<notin> fst ` set al \<Longrightarrow> AList.update k v al = al @ [(k, v)]"
  by (induction al) auto

lemma new_args_distinct:
  assumes "new_args schema kwargs acc = Inr r" and "distinct (map fst (acc @ kwargs))"
  shows "r = acc @ kwargs \<and> (\<forall>(k, v)\<in>set kwargs. map_of schema k = Some (type_of v))"
  using assms
proof (induction kwargs arbitrary: acc)
  case Nil
  then show ?case by simp
next
  case (Cons a kwargs)
  obtain k v where a: "a = (k, v)" by (cases a)
  from Cons.prems(1) a have ty: "map_of schema k = Some (type_of v)"
    and r: "new_args schema kwargs (AList.update k v acc) = Inr r"
    by (auto split: option.splits if_splits)
  from Cons.prems(2) a have "k \<notin> fst ` set acc" by auto
  then have u: "AList.update k v acc = acc @ [(k, v)]" by (rule update_fresh)
  from Cons.prems(2) a have "distinct (map fst ((acc @ [(k, v)]) @ kwargs))" by simp
  from Cons.IH [OF r [unfolded u] this] ty a show ?case by simp
qed

lemma new_Inr:
  assumes "new d cmt kwargs = Inr c" and "distinct (map fst kwargs)"
  shows "c = \<lparr>cmd_code = Some (descr_code d), args = kwargs, comment = cmt\<rparr>"
    and "\<forall>(k, v)\<in>set kwargs. map_of (arguments d) k = Some (type_of v)"
proof -
  from assms(1) obtain r where r: "new_args (arguments d) kwargs [] = Inr r"
    and c: "c = \<lparr>cmd_code = Some (descr_code d), args = r, comment = cmt\<rparr>"
    by (auto simp: new_def split: sum.splits)
  from new_args_distinct [OF r] assms(2) c
  show "c = \<lparr>cmd_code = Some (descr_code d), args = kwargs, comment = cmt\<rparr>"
    and "\<forall>(k, v)\<in>set kwargs. map_of (arguments d) k = Some (type_of v)" by simp_all
qed

lemma format_args_Some:
  assumes "\<forall>(k, v)\<in>set kvs. v \<noteq> None"
  shows "format_args kvs = Inr (concat (map (\<lambda>(k, v). CHR '' '' # k @ fmt_round (the v)) kvs))"
  using assms by (induction kvs) auto

lemma digit_plain: "is_digit c \<Longrightarrow> c \<noteq> CHR '' '' \<and> c \<noteq> CHR '';''"
  by (auto simp: is_digit_def)

lemma digits_plain: "list_all is_digit s \<Longrightarrow> list_all (\<lambda>c. c \<noteq> CHR '' '' \<and> c \<noteq> CHR '';'') s"
  by (simp add: list_all_iff digit_plain)

lemma repr_digits_plain: "list_all (\<lambda>c. c \<noteq> CHR '' '' \<and> c \<noteq> CHR '';'') (repr_digits m)"
proof -
  have r: "m mod 100000 < 100000" by simp
  let ?ip = "str_of_nat (m div 100000)"
  let ?fp = "strip_zeros (pad5 (m mod 100000))"
  have ip: "list_all (\<lambda>c. c \<noteq> CHR '' '' \<and> c \<noteq> CHR '';'') ?ip"
    by (rule digits_plain) (rule str_of_nat_digits)
  have fp: "list_all (\<lambda>c. c \<noteq> CHR '' '' \<and> c \<noteq> CHR '';'') ?fp"
    by (intro digits_plain strip_zeros_digits) (rule pad5_props [OF r])
  have ds: "list_all (\<lambda>c. c \<noteq> CHR '' '' \<and> c \<noteq> CHR '';'') (strip_zeros (?ip @ ?fp))"
    by (intro digits_plain strip_zeros_digits)
      (simp add: str_of_nat_digits strip_zeros_digits pad5_props [OF r])
  have tk: "list_all (\<lambda>c. c \<noteq> CHR '' '' \<and> c \<noteq> CHR '';'') (take 1 (strip_zeros (?ip @ ?fp)))"
    and dr: "list_all (\<lambda>c. c \<noteq> CHR '' '' \<and> c \<noteq> CHR '';'') (drop 1 (strip_zeros (?ip @ ?fp)))"
    using ds by (auto simp: list_all_iff dest: in_set_takeD in_set_dropD)
  have ex: "list_all (\<lambda>c. c \<noteq> CHR '' '' \<and> c \<noteq> CHR '';'') (str_of_nat k)" for k
    by (rule digits_plain) (rule str_of_nat_digits)
  consider "m = 0" | "0 < m" "m < 10" | "10 \<le> m" "\<not> 16 < length (str_of_nat (m div 100000))"
    | "10 \<le> m" "16 < length (str_of_nat (m div 100000))" by linarith
  then show ?thesis
  proof cases
    case 1
    then show ?thesis by (simp add: repr_digits_zero)
  next
    case 2
    then have "is_digit (digit_char m)" by simp
    from digit_plain [OF this] show ?thesis by (simp add: repr_digits_small [OF 2])
  next
    case 3
    from ip fp show ?thesis by (simp add: repr_digits_fixed [OF 3])
  next
    case 4
    from tk dr ex show ?thesis by (simp add: repr_digits_sci [OF 4] del: One_nat_def)
  qed
qed

lemma fmt_round_plain: "list_all (\<lambda>c. c \<noteq> CHR '' '' \<and> c \<noteq> CHR '';'') (fmt_round v)"
proof (cases v)
  case (PInt i)
  have "list_all (\<lambda>c. c \<noteq> CHR '' '' \<and> c \<noteq> CHR '';'') (str_of_nat k)" for k
    by (rule digits_plain) (rule str_of_nat_digits)
  with PInt show ?thesis by (simp add: str_of_int_def)
next
  case (PFloat r)
  with repr_digits_plain show ?thesis by (simp add: repr_float5_def)
qed

lemma fmt_round_not_Nil [simp]: "fmt_round v \<noteq> []"
proof (cases v)
  case (PInt i)
  then show ?thesis by (simp add: str_of_int_def)
next
  case (PFloat r)
  with repr_digits_ends show ?thesis by (simp add: repr_float5_def)
qed

lemma round_half_even_of_int [simp]: "round_half_even (of_int n) = n"
  by (simp add: round_half_even_def)

lemma fmt_round_round5 [simp]: "fmt_round (py_round5 v) = fmt_round v"
  by (cases v) simp_all

lemma convert_fmt_round:
  "type_of (Some v) = ty \<Longrightarrow> convert ty (Some (fmt_round v)) = Inr (Some (py_round5 v))"
  by (cases v) auto

lemma find_token:
  assumes "\<forall>(k, v)\<in>set kwargs. length k = 1"
  shows "find (\<lambda>t. take 1 t = a) (map (\<lambda>(k, v). k @ f v) kwargs)
           = map_option (\<lambda>v. a @ f v) (map_of kwargs a)"
  using assms
proof (induction kwargs)
  case Nil
  then show ?case by simp
next
  case (Cons kv kwargs)
  obtain k v where kv: "kv = (k, v)" by (cases kv)
  with Cons.prems have "length k = 1" by simp
  then have "take 1 (k @ f v) = k" by simp
  with Cons kv show ?case by auto
qed

lemma parse_args_built:
  assumes keys: "\<forall>(k, v)\<in>set kwargs. length k = 1"
    and some: "\<forall>(k, v)\<in>set kwargs. v \<noteq> None"
    and types: "\<forall>(a, ty)\<in>set sch. \<forall>v. map_of kwargs a = Some v \<longrightarrow> type_of v = ty"
  shows "parse_args sch (map (\<lambda>(k, v). k @ fmt_round (the v)) kwargs)
           = Inr (in_schema_order sch (map (\<lambda>(k, v). (k, map_option py_round5 v)) kwargs))"
  using types
proof (induction sch)
  case Nil
  then show ?case by (simp add: in_schema_order_def)
next
  case (Cons p sch)
  obtain a ty where p: "p = (a, ty)" by (cases p)
  from Cons.prems have rest: "\<forall>(a, ty)\<in>set sch. \<forall>v. map_of kwargs a = Some v \<longrightarrow> type_of v = ty"
    by simp
  note IH = Cons.IH [OF rest]
  have m: "map_of (map (\<lambda>(k, v). (k, map_option py_round5 v)) kwargs) a
             = map_option (map_option py_round5) (map_of kwargs a)"
    by (induction kwargs) auto
  show ?case
  proof (cases "map_of kwargs a")
    case None
    with IH p m find_token [OF keys, of a "\<lambda>v. fmt_round (the v)"] show ?thesis
      by (simp add: in_schema_order_def)
  next
    case (Some v)
    then have "(a, v) \<in> set kwargs" by (rule map_of_SomeD)
    with some obtain n where n: "v = Some n" by fastforce
    from Cons.prems p Some have ty: "type_of v = ty" by simp
    from keys \<open>(a, v) \<in> set kwargs\<close> have "length a = 1" by fastforce
    then have d: "drop 1 (a @ fmt_round n) = fmt_round n" by simp
    from convert_fmt_round [of n ty] ty n
    have c: "convert ty (Some (fmt_round n)) = Inr (Some (py_round5 n))" by simp
    from find_token [OF keys, of a "\<lambda>v. fmt_round (the v)"] Some n
    have f: "find (\<lambda>t. take 1 t = a) (map (\<lambda>(k, v). k @ fmt_round (the v)) kwargs)
               = Some (a @ fmt_round n)" by simp
    from IH p m Some n f c d show ?thesis
      by (simp add: in_schema_order_def)
  qed
qed

lemma catalog_elim:
  assumes "d \<in> set get_all_commands"
  obtains "d = LINEAR_MOTION_COMMAND" | "d = LINEAR_MOTION_EXTRUDED_COMMAND"
    | "d = SET_FAN_SPEED_COMMAND" | "d = SET_FEEDRATE_COMMAND" | "d = SET_FLOW_COMMAND"
    | "d = SET_HOTENT_TEMP_COMMAND"
  using assms unfolding get_all_commands_def by auto

lemma get_catalog:
  "get ''G0'' = Some LINEAR_MOTION_COMMAND" "get ''G1'' = Some LINEAR_MOTION_EXTRUDED_COMMAND"
  "get ''M106'' = Some SET_FAN_SPEED_COMMAND" "get ''M220'' = Some SET_FEEDRATE_COMMAND"
  "get ''M221'' = Some SET_FLOW_COMMAND" "get ''M104'' = Some SET_HOTENT_TEMP_COMMAND"
  by (simp_all add: get_def get_all_commands_def LINEAR_MOTION_COMMAND_def
        LINEAR_MOTION_EXTRUDED_COMMAND_def SET_FAN_SPEED_COMMAND_def SET_FEEDRATE_COMMAND_def
        SET_FLOW_COMMAND_def SET_HOTENT_TEMP_COMMAND_def)

lemma catalog_cases:
  assumes "d \<in> set get_all_commands"
  shows "get (descr_code d) = Some d"
    and "descr_code d \<noteq> []" and "hd (descr_code d) \<in> set ''GM;''"
    and "CHR '' '' \<notin> set (descr_code d)" and "CHR '';'' \<notin> set (descr_code d)"
    and "\<forall>(k, ty)\<in>set (arguments d). length k = 1"
    and "distinct (map fst (arguments d))"
proof -
  have "get (descr_code d) = Some d \<and> descr_code d \<noteq> [] \<and> hd (descr_code d) \<in> set ''GM;''
      \<and> CHR '' '' \<notin> set (descr_code d) \<and> CHR '';'' \<notin> set (descr_code d)
      \<and> (\<forall>(k, ty)\<in>set (arguments d). length k = 1) \<and> distinct (map fst (arguments d))"
    using assms
  proof (cases rule: catalog_elim)
    case 1
    have "descr_code d = ''G0''" by (simp add: 1 LINEAR_MOTION_COMMAND_def)
    moreover have "arguments d = [(''F'', float_t), (''X'', float_t), (''Y'', float_t), (''Z'', float_t), (''E'', float_t)]"
      by (simp add: 1 LINEAR_MOTION_COMMAND_def)
    ultimately show ?thesis using get_catalog(1) 1 by simp
  next
    case 2
    have "descr_code d = ''G1''" by (simp add: 2 LINEAR_MOTION_EXTRUDED_COMMAND_def)
    moreover have "arguments d = [(''F'', float_t), (''X'', float_t), (''Y'', float_t), (''Z'', float_t), (''E'', float_t)]"
      by (simp add: 2 LINEAR_MOTION_EXTRUDED_COMMAND_def)
    ultimately show ?thesis using get_catalog(2) 2 by simp
  next
    case 3
    have "descr_code d = ''M106''" by (simp add: 3 SET_FAN_SPEED_COMMAND_def)
    moreover have "arguments d = [(''I'', int_t), (''P'', int_t), (''S'', int_t), (''T'', int_t)]"
      by (simp add: 3 SET_FAN_SPEED_COMMAND_def)
    ultimately show ?thesis using get_catalog(3) 3 by simp
  next
    case 4
    have "descr_code d = ''M220''" by (simp add: 4 SET_FEEDRATE_COMMAND_def)
    moreover have "arguments d = [(''S'', int_t), (''B'', NoneType), (''R'', NoneType)]"
      by (simp add: 4 SET_FEEDRATE_COMMAND_def)
    ultimately show ?thesis using get_catalog(4) 4 by simp
  next
    case 5
    have "descr_code d = ''M221''" by (simp add: 5 SET_FLOW_COMMAND_def)
    moreover have "arguments d = [(''S'', int_t), (''T'', int_t)]"
      by (simp add: 5 SET_FLOW_COMMAND_def)
    ultimately show ?thesis using get_catalog(5) 5 by simp
  next
    case 6
    have "descr_code d = ''M104''" by (simp add: 6 SET_HOTENT_TEMP_COMMAND_def)
    moreover have "arguments d = [(''B'', int_t), (''F'', NoneType), (''I'', int_t), (''S'', int_t), (''T'', int_t)]"
      by (simp add: 6 SET_HOTENT_TEMP_COMMAND_def)
    ultimately show ?thesis using get_catalog(6) 6 by simp
  qed
  then show "get (descr_code d) = Some d"
    and "descr_code d \<noteq> []" and "hd (descr_code d) \<in> set ''GM;''"
    and "CHR '' '' \<notin> set (descr_code d)" and "CHR '';'' \<notin> set (descr_code d)"
    and "\<forall>(k, ty)\<in>set (arguments d). length k = 1"
    and "distinct (map fst (arguments d))" by blast+
qed

lemma catalog_keys_plain:
  assumes "d \<in> set get_all_commands" and "(k, ty) \<in> set (arguments d)"
  shows "CHR '' '' \<notin> set k \<and> CHR '';'' \<notin> set k"
  using assms(1)
proof (cases rule: catalog_elim)
  case 1
  with assms(2) show ?thesis by (auto simp: LINEAR_MOTION_COMMAND_def)
next
  case 2
  with assms(2) show ?thesis by (auto simp: LINEAR_MOTION_EXTRUDED_COMMAND_def)
next
  case 3
  with assms(2) show ?thesis by (auto simp: SET_FAN_SPEED_COMMAND_def)
next
  case 4
  with assms(2) show ?thesis by (auto simp: SET_FEEDRATE_COMMAND_def)
next
  case 5
  with assms(2) show ?thesis by (auto simp: SET_FLOW_COMMAND_def)
next
  case 6
  with assms(2) show ?thesis by (auto simp: SET_HOTENT_TEMP_COMMAND_def)
qed

lemma in_schema_order_map:
  "in_schema_order sch (map (\<lambda>(k, v). (k, g v)) kvs)
     = map (\<lambda>(k, v). (k, g v)) (in_schema_order sch kvs)"
proof -
  have m: "map_of (map (\<lambda>(k, v). (k, g v)) kvs) a = map_option g (map_of kvs a)" for a
    by (induction kvs) auto
  show ?thesis
    by (induction sch) (auto simp: in_schema_order_def m split: option.splits)
qed

lemma in_schema_order_subset: "set (in_schema_order sch kvs) \<subseteq> set kvs"
proof
  fix x assume "x \<in> set (in_schema_order sch kvs)"
  then obtain a ty where "(a, ty) \<in> set sch"
    and "x \<in> set (case map_of kvs a of None \<Rightarrow> [] | Some v \<Rightarrow> [(a, v)])"
    by (auto simp: in_schema_order_def)
  then show "x \<in> set kvs" by (cases "map_of kvs a") (auto dest: map_of_SomeD)
qed

lemma parse_unfold:
  assumes "line \<noteq> []" and "hd line \<in> set ''GM;''"
    and "split (CHR '';'') line = b # rest"
    and "filter (\<lambda>t. t \<noteq> []) (split (CHR '' '') b) = cd # toks"
    and "get cd = Some d" and "parse_args (arguments d) toks = Inr kvs"
  shows "parse line = Inr \<lparr>cmd_code = Some cd, args = kvs, comment = join '' '' rest\<rparr>"
  using assms by (simp add: parse_def Let_def)

lemma parse_built_line:
  fixes toks :: "string list"
  assumes d: "d \<in> set get_all_commands"
    and toks: "\<forall>t\<in>set toks. t \<noteq> [] \<and> CHR '' '' \<notin> set t \<and> CHR '';'' \<notin> set t"
    and pa: "parse_args (arguments d) toks = Inr kvs"
  shows "parse (descr_code d @ concat (map (\<lambda>t. CHR '' '' # t) toks)
                 @ (if cmt \<noteq> [] then CHR '';'' # cmt else []))
           = Inr \<lparr>cmd_code = Some (descr_code d), args = kvs,
                  comment = map (\<lambda>ch. if ch = CHR '';'' then CHR '' '' else ch) cmt\<rparr>"
proof -
  note cat = catalog_cases [OF d]
  let ?body = "descr_code d @ concat (map (\<lambda>t. CHR '' '' # t) toks)"
  let ?s = "?body @ (if cmt \<noteq> [] then CHR '';'' # cmt else [])"
  have ne: "?s \<noteq> []" using cat(2) by simp
  have hd: "hd ?s \<in> set ''GM;''" using cat(2,3) by simp
  have nosemi: "CHR '';'' \<notin> set ?body" using cat(5) toks by auto
  have sp: "split (CHR '';'') ?s = ?body # (if cmt \<noteq> [] then split (CHR '';'') cmt else [])"
    using nosemi by (simp add: split_no_sep split_at_sep del: append_assoc)
  have tk: "filter (\<lambda>t. t \<noteq> []) (split (CHR '' '') ?body) = descr_code d # toks"
    using cat(2,4) toks by (intro tokens_of_words) auto
  have cm: "join '' '' (if cmt \<noteq> [] then split (CHR '';'') cmt else [])
              = map (\<lambda>ch. if ch = CHR '';'' then CHR '' '' else ch) cmt"
    by (simp add: join_split)
  from parse_unfold [OF ne hd sp tk cat(1) pa] show ?thesis by (simp only: cm append_assoc)
qed

text \<open>
  C3, as stated, fails: \<open>__str__\<close> walks \<open>self.args.items()\<close>, the insertion order of the
  dictionary, and knows nothing of the schema. A command built with \<open>T\<close> before \<open>S\<close> prints
  \<open>T\<close> before \<open>S\<close>, while the schema of M104 declares \<open>S\<close> before \<open>T\<close>.
\<close>

theorem format_insertion_order:
  "new_str SET_HOTENT_TEMP_COMMAND [(''T'', Some (PInt 0)), (''S'', Some (PInt 190))]
     = Inr ''M104 T0 S190''
   \<and> map fst (arguments SET_HOTENT_TEMP_COMMAND) = [''B'', ''F'', ''I'', ''S'', ''T'']"
  by code_simp

text \<open>
  Two further departures come from slips and are left out of the amended claim:
  \<open>SET_LINEAR_ADVANCE_FACTOR\<close> lacks the suffix \<open>_COMMAND\<close>, so M900 can be built and printed
  but not parsed; and a flag argument, whose value is \<open>None\<close>, cannot be printed.
\<close>

lemma linear_advance_and_flags:
  "new_str SET_LINEAR_ADVANCE_FACTOR [(''K'', Some (PFloat (1 / 2)))] = Inr ''M900 K0.5''
   \<and> parse ''M900 K0.5'' = Inl ValueError_UnsupportedGCode
   \<and> new_str SET_FEEDRATE_COMMAND [(''B'', None)] = Inl TypeError"
  by code_simp

text \<open>
  C3, amended: for every schema of the catalog that \<open>parse\<close> knows (G0, G1, M104, M106,
  M220, M221) and every set of valid numeric arguments supplied in any order, \<open>format\<close> of
  the built command emits the code, the arguments in the order supplied, each as its letter
  and its value rounded to five decimals, then \<open>;\<close> and the comment when it is not empty.
  \<open>parse\<close> reads that text back as the same code with the same argument values rounded to
  five decimals, in schema-declared order, and \<open>format\<close> of the parsed command emits them in
  schema-declared order, followed by \<open>;\<close> and the comment (its semicolons turned into
  spaces) when it is not empty.
\<close>

theorem codec_round_trip:
  assumes "d \<in> set get_all_commands" and "distinct (map fst kwargs)"
    and "\<forall>(k, v)\<in>set kwargs. v \<noteq> None" and "new d cmt kwargs = Inr c"
  shows "format c = Inr (descr_code d
             @ concat (map (\<lambda>(k, v). '' '' @ k @ fmt_round (the v)) kwargs)
             @ (if cmt \<noteq> [] then '';'' @ cmt else []))
     \<and> (\<exists>s c'. format c = Inr s \<and> parse s = Inr c'
          \<and> c' = \<lparr>cmd_code = Some (descr_code d),
                   args = in_schema_order (arguments d)
                            (map (\<lambda>(k, v). (k, map_option py_round5 v)) kwargs),
                   comment = map (\<lambda>ch. if ch = CHR '';'' then CHR '' '' else ch) cmt\<rparr>
          \<and> format c' = Inr (descr_code d
                 @ concat (map (\<lambda>(k, v). '' '' @ k @ fmt_round (the v))
                     (in_schema_order (arguments d) kwargs))
                 @ (if cmt \<noteq> [] then '';'' @ map (\<lambda>ch. if ch = CHR '';'' then CHR '' '' else ch) cmt
                    else [])))"
proof -
  note cat = catalog_cases [OF assms(1)]
  note n = new_Inr [OF assms(4,2)]
  let ?tok = "\<lambda>(k, v). k @ fmt_round (the v)"
  let ?toks = "map ?tok kwargs"
  let ?s = "descr_code d @ concat (map (\<lambda>t. CHR '' '' # t) ?toks)
              @ (if cmt \<noteq> [] then CHR '';'' # cmt else [])"
  let ?cmt = "map (\<lambda>ch. if ch = CHR '';'' then CHR '' '' else ch) cmt"
  let ?kvs = "in_schema_order (arguments d) (map (\<lambda>(k, v). (k, map_option py_round5 v)) kwargs)"
  let ?c' = "\<lparr>cmd_code = Some (descr_code d), args = ?kvs, comment = ?cmt\<rparr>"
  have sch: "(k, type_of v) \<in> set (arguments d)" if "(k, v) \<in> set kwargs" for k v
    using n(2) that by (auto dest: map_of_SomeD)
  have keys: "\<forall>(k, v)\<in>set kwargs. length k = 1"
    using sch cat(6) by fastforce
  have mm: "map (\<lambda>t. CHR '' '' # t) ?toks = map (\<lambda>(k, v). CHR '' '' # k @ fmt_round (the v)) kwargs"
    by (induction kwargs) auto
  have f: "format c = Inr ?s"
    unfolding mm using format_args_Some [OF assms(3)] by (simp add: n(1) format_def)
  have toks: "\<forall>t\<in>set ?toks. t \<noteq> [] \<and> CHR '' '' \<notin> set t \<and> CHR '';'' \<notin> set t"
  proof
    fix t assume "t \<in> set ?toks"
    then obtain k v where kv: "(k, v) \<in> set kwargs" and t: "t = k @ fmt_round (the v)" by auto
    from catalog_keys_plain [OF assms(1) sch [OF kv]] fmt_round_plain [of "the v"] t
    show "t \<noteq> [] \<and> CHR '' '' \<notin> set t \<and> CHR '';'' \<notin> set t"
      by (auto simp: list_all_iff)
  qed
  have types: "\<forall>(a, ty)\<in>set (arguments d). \<forall>v. map_of kwargs a = Some v \<longrightarrow> type_of v = ty"
  proof (intro ballI allI impI, clarify)
    fix a ty v assume a: "(a, ty) \<in> set (arguments d)" and m: "map_of kwargs a = Some v"
    from m have "(a, v) \<in> set kwargs" by (rule map_of_SomeD)
    from sch [OF this] a cat(7) show "type_of v = ty"
      by (meson eq_key_imp_eq_value)
  qed
  from parse_args_built [OF keys assms(3) types]
  have pa: "parse_args (arguments d) ?toks = Inr ?kvs" .
  from parse_built_line [OF assms(1) toks pa]
  have p: "parse ?s = Inr ?c'" .
  have sub: "\<exists>n. v = Some n" if "(k, v) \<in> set (in_schema_order (arguments d) kwargs)" for k v
  proof -
    from that in_schema_order_subset have "(k, v) \<in> set kwargs" by blast
    with assms(3) show ?thesis by fastforce
  qed
  have vals: "\<forall>(k, v)\<in>set ?kvs. v \<noteq> None"
  proof -
    have "?kvs = map (\<lambda>(k, v). (k, map_option py_round5 v)) (in_schema_order (arguments d) kwargs)"
      by (rule in_schema_order_map)
    with sub show ?thesis by fastforce
  qed
  have "concat (map (\<lambda>(k, v). CHR '' '' # k @ fmt_round (the v)) ?kvs)
      = concat (map (\<lambda>(k, v). CHR '' '' # k @ fmt_round (the v)) (in_schema_order (arguments d) kwargs))"
  proof -
    have "map (\<lambda>(k, v). CHR '' '' # k @ fmt_round (the v))
            (map (\<lambda>(k, v). (k, map_option py_round5 v)) (in_schema_order (arguments d) kwargs))
        = map (\<lambda>(k, v). CHR '' '' # k @ fmt_round (the v)) (in_schema_order (arguments d) kwargs)"
      using sub by fastforce
    then show ?thesis by (simp only: in_schema_order_map)
  qed
  with format_args_Some [OF vals]
  have f': "format ?c' = Inr (descr_code d
                 @ concat (map (\<lambda>(k, v). '' '' @ k @ fmt_round (the v))
                     (in_schema_order (arguments d) kwargs))
                 @ (if cmt \<noteq> [] then '';'' @ ?cmt else []))"
    by (simp add: format_def)
  from f p f' have "\<exists>s c'. format c = Inr s \<and> parse s = Inr c' \<and> c' = ?c'
      \<and> format c' = Inr (descr_code d
                 @ concat (map (\<lambda>(k, v). '' '' @ k @ fmt_round (the v))
                     (in_schema_order (arguments d) kwargs))
                 @ (if cmt \<noteq> [] then '';'' @ ?cmt else []))"
    by blast
  moreover from f have "format c = Inr (descr_code d
             @ concat (map (\<lambda>(k, v). '' '' @ k @ fmt_round (the v)) kwargs)
             @ (if cmt \<noteq> [] then '';'' @ cmt else []))"
    unfolding mm by simp
  ultimately show ?thesis by blast
qed

theorem codec_round_trip_witness:
  "format \<lparr>cmd_code = Some ''G1'',
           args = [(''E'', Some (PFloat (5 / 4))), (''X'', Some (PFloat 10)), (''F'', Some (PFloat 1200))],
           comment = ''move''\<rparr> = Inr ''G1 E1.25 X10.0 F1200.0;move''
   \<and> parse ''G1 E1.25 X10.0 F1200.0;move''
       = Inr \<lparr>cmd_code = Some ''G1'',
               args = [(''F'', Some (PFloat 1200)), (''X'', Some (PFloat 10)), (''E'', Some (PFloat (5 / 4)))],
               comment = ''move''\<rparr>
   \<and> format \<lparr>cmd_code = Some ''G1'',
               args = [(''F'', Some (PFloat 1200)), (''X'', Some (PFloat 10)), (''E'', Some (PFloat (5 / 4)))],
               comment = ''move''\<rparr> = Inr ''G1 F1200.0 X10.0 E1.25;move''"
proof -
  let ?d = LINEAR_MOTION_EXTRUDED_COMMAND
  let ?kw = "[(''E'', Some (PFloat (5 / 4))), (''X'', Some (PFloat 10)), (''F'', Some (PFloat 1200))]"
  let ?c = "\<lparr>cmd_code = Some ''G1'', args = ?kw, comment = ''move''\<rparr>"
  have h1: "?d \<in> set get_all_commands" by (simp add: get_all_commands_def)
  have h2: "distinct (map fst ?kw)" by simp
  have h3: "\<forall>(k, v)\<in>set ?kw. v \<noteq> None" by simp
  have h4: "new ?d ''move'' ?kw = Inr ?c" by code_simp
  have e1: "descr_code ?d @ concat (map (\<lambda>(k, v). '' '' @ k @ fmt_round (the v)) ?kw)
              @ (if ''move'' \<noteq> [] then '';'' @ ''move'' else []) = ''G1 E1.25 X10.0 F1200.0;move''"
    by code_simp
  have e2: "\<lparr>cmd_code = Some (descr_code ?d),
             args = in_schema_order (arguments ?d) (map (\<lambda>(k, v). (k, map_option py_round5 v)) ?kw),
             comment = map (\<lambda>ch. if ch = CHR '';'' then CHR '' '' else ch) ''move''\<rparr>
            = \<lparr>cmd_code = Some ''G1'',
               args = [(''F'', Some (PFloat 1200)), (''X'', Some (PFloat 10)), (''E'', Some (PFloat (5 / 4)))],
               comment = ''move''\<rparr>"
    by code_simp
  have e3: "descr_code ?d @ concat (map (\<lambda>(k, v). '' '' @ k @ fmt_round (the v))
                 (in_schema_order (arguments ?d) ?kw))
              @ (if ''move'' \<noteq> [] then '';'' @ map (\<lambda>ch. if ch = CHR '';'' then CHR '' '' else ch) ''move''
                 else []) = ''G1 F1200.0 X10.0 E1.25;move''"
    by code_simp
  from codec_round_trip [OF h1 h2 h3 h4] show ?thesis
    unfolding e1 e2 e3 by auto
qed

subsection \<open>The shape of the output blocks\<close>

lemma hd_split: "hd (split c s) = takeWhile (\<lambda>x. x \<noteq> c) s"
proof (induction s)
  case Nil
  then show ?case by simp
next
  case (Cons a s)
  then show ?case by (auto split: list.splits)
qed

lemma tl_split:
  "tl (split c s) = (if c \<in> set s then split c (drop 1 (dropWhile (\<lambda>x. x \<noteq> c) s)) else [])"
proof (induction s)
  case Nil
  then show ?case by simp
next
  case (Cons a s)
  obtain w ws where "split c s = w # ws" by (cases "split c s") simp_all
  with Cons show ?case by auto
qed

lemma comment_part_eq:
  "comment_part l
     = map (\<lambda>x. if x = CHR '';'' then CHR '' '' else x) (drop 1 (dropWhile (\<lambda>x. x \<noteq> CHR '';'') l))"
proof (cases "CHR '';'' \<in> set l")
  case True
  then show ?thesis
    using join_split [of "CHR '' ''" "CHR '';''" "drop 1 (dropWhile (\<lambda>x. x \<noteq> CHR '';'') l)"]
    by (simp add: comment_part_def tl_split)
next
  case False
  then have e: "dropWhile (\<lambda>x. x \<noteq> CHR '';'') l = []" by (auto simp: dropWhile_eq_Nil_conv)
  show ?thesis by (simp add: comment_part_def tl_split False e)
qed

lemma comment_part_plain: "CHR '';'' \<notin> set (comment_part l)"
  by (auto simp: comment_part_eq)

lemma comment_part_built:
  assumes "CHR '';'' \<notin> set pre" and "CHR '';'' \<notin> set c"
  shows "comment_part (pre @ (if c \<noteq> [] then '';'' @ c else [])) = c"
proof -
  have d: "dropWhile (\<lambda>x. x \<noteq> CHR '';'') (pre @ r) = dropWhile (\<lambda>x. x \<noteq> CHR '';'') r" for r
    using assms(1) by (intro dropWhile_append2) auto
  have m: "map (\<lambda>x. if x = CHR '';'' then CHR '' '' else x) c = c"
    using assms(2) by (intro map_idI) auto
  show ?thesis
  proof (cases "c = []")
    case True
    from d [of "[]"] have e: "dropWhile (\<lambda>x. x \<noteq> CHR '';'') pre = []" by simp
    show ?thesis by (simp add: comment_part_eq True e)
  next
    case False
    then show ?thesis by (simp add: comment_part_eq d m)
  qed
qed

lemma command_word_G1: "command_word (''G1'' @ CHR '' '' # rest) = ''G1''"
  by (simp add: command_word_def hd_split split: list.splits)

lemma format_args_space:
  "format_args kvs = Inr a \<Longrightarrow> kvs \<noteq> [] \<Longrightarrow> \<exists>r. a = CHR '' '' # r"
  by (cases kvs) (auto split: option.splits sum.splits)

lemma format_args_plain:
  assumes "format_args kvs = Inr a" and "\<And>k v. (k, v) \<in> set kvs \<Longrightarrow> CHR '';'' \<notin> set k"
  shows "CHR '';'' \<notin> set a"
  using assms
proof (induction kvs arbitrary: a)
  case Nil
  then show ?case by simp
next
  case (Cons kv kvs)
  obtain k v where kv: "kv = (k, v)" by (cases kv)
  with Cons.prems(1) obtain n a0 where v: "v = Some n" and a0: "format_args kvs = Inr a0"
    and a: "a = '' '' @ k @ fmt_round n @ a0"
    by (auto split: option.splits sum.splits)
  from Cons.prems(2) [of k v] kv have k: "CHR '';'' \<notin> set k" by simp
  from Cons.IH [OF a0] Cons.prems(2) have "CHR '';'' \<notin> set a0" by auto
  moreover from fmt_round_plain [of n] have "CHR '';'' \<notin> set (fmt_round n)"
    by (auto simp: list_all_iff)
  ultimately show ?case using a k by simp
qed

lemma update_not_Nil: "AList.update k v al \<noteq> []"
  by (cases al) auto

lemma parse_G1_word:
  assumes "parse l = Inr cmd" and "command cmd = Some LINEAR_MOTION_EXTRUDED_COMMAND"
  shows "command_word l = ''G1'' \<and> cmd_code cmd = Some ''G1'' \<and> comment cmd = comment_part l"
proof -
  from assms(2) obtain cd where cd: "cmd_code cmd = Some cd"
    and g: "get cd = Some LINEAR_MOTION_EXTRUDED_COMMAND"
    by (auto simp: command_def split: option.splits)
  from g have "descr_code LINEAR_MOTION_EXTRUDED_COMMAND = cd"
    by (auto simp: get_def find_Some_iff)
  then have c: "cd = ''G1''" by (simp add: LINEAR_MOTION_EXTRUDED_COMMAND_def)
  from assms(1) cd have "command_word l = cd \<and> comment cmd = comment_part l"
    by (auto simp: parse_def Let_def command_word_def comment_part_def
          split: if_splits list.splits option.splits sum.splits)
  with cd c show ?thesis by simp
qed

lemma parse_G1_keys:
  assumes "parse l = Inr cmd" and "command cmd = Some LINEAR_MOTION_EXTRUDED_COMMAND"
    and "(k, v) \<in> set (args cmd)"
  shows "CHR '';'' \<notin> set k"
proof -
  from parse_cases [OF assms(1)] assms(2) obtain toks where
    "parse_args (arguments LINEAR_MOTION_EXTRUDED_COMMAND) toks = Inr (args cmd)"
    by (auto simp: command_def)
  from parse_args_types [OF this assms(3)] show ?thesis
    by (auto simp: LINEAR_MOTION_EXTRUDED_COMMAND_def)
qed

lemma rewrite_line_word:
  assumes "parse (marker_line m) = Inr cmd"
    and "command cmd = Some LINEAR_MOTION_EXTRUDED_COMMAND"
    and "rewrite_line m cmd k v = Inr m'"
    and "k = ''F'' \<or> k = ''E''"
  shows "command_word (marker_line m) = ''G1'' \<and> command_word (marker_line m') = ''G1''
         \<and> comment_part (marker_line m') = comment_part (marker_line m)
         \<and> lines_after m' = lines_after m"
proof -
  from parse_G1_word [OF assms(1,2)] have w: "command_word (marker_line m) = ''G1''"
    and c: "cmd_code cmd = Some ''G1''"
    and cm: "comment cmd = comment_part (marker_line m)" by simp_all
  from assms(3) obtain a where a: "format_args (AList.update k (Some v) (args cmd)) = Inr a"
    and m': "m' = m\<lparr>marker_line := ''G1'' @ a @ (if comment cmd \<noteq> [] then '';'' @ comment cmd else [])\<rparr>"
    using c by (auto simp: rewrite_line_def format_def split: sum.splits)
  from format_args_space [OF a update_not_Nil] obtain r where r: "a = CHR '' '' # r" by blast
  with m' have "marker_line m' = ''G1'' @ CHR '' '' # (r @ (if comment cmd \<noteq> [] then '';'' @ comment cmd else []))"
    by simp
  then have w': "command_word (marker_line m') = ''G1''" by (simp only: command_word_G1)
  have "CHR '';'' \<notin> set a"
  proof (rule format_args_plain [OF a])
    fix k' v' assume "(k', v') \<in> set (AList.update k (Some v) (args cmd))"
    with set_update_subset have "(k', v') = (k, Some v) \<or> (k', v') \<in> set (args cmd)" by fastforce
    then show "CHR '';'' \<notin> set k'"
    proof
      assume "(k', v') = (k, Some v)"
      with assms(4) show ?thesis by auto
    next
      assume "(k', v') \<in> set (args cmd)"
      from parse_G1_keys [OF assms(1,2) this] show ?thesis .
    qed
  qed
  then have p: "CHR '';'' \<notin> set (''G1'' @ a)" by simp
  from m' have "marker_line m' = (''G1'' @ a) @ (if comment cmd \<noteq> [] then '';'' @ comment cmd else [])"
    by simp
  then have "comment_part (marker_line m') = comment cmd"
    using comment_part_built [OF p, of "comment cmd"] comment_part_plain [of "marker_line m"] cm
    by simp
  with w w' cm m' show ?thesis by simp
qed

lemma single_command_line:
  assumes "single_command m d start step create = Inr m'"
  shows "marker_line m' = marker_line m \<and> lines_after m' = lines_after m"
  using assms by (auto simp: single_command_def split: if_splits sum.splits)

lemma processor_handle_line:
  assumes "processor_handle p m d h = Inr m'"
  shows "(single_command_processor p \<longrightarrow>
            marker_line m' = marker_line m \<and> lines_after m' = lines_after m)
       \<and> (marker_line m' = marker_line m
            \<or> (command_word (marker_line m) = ''G1'' \<and> command_word (marker_line m') = ''G1''
               \<and> comment_part (marker_line m') = comment_part (marker_line m)))"
proof (cases p)
  case (PrintSpeedProcessor start step)
  with assms show ?thesis
    by (auto split: if_splits sum.splits dest: rewrite_line_word)
next
  case (RetractionLengthProcessor start step)
  with assms show ?thesis
    by (auto split: if_splits sum.splits dest: rewrite_line_word)
next
  case (RetractionSpeedProcessor start step)
  with assms show ?thesis
    by (auto split: if_splits sum.splits dest: rewrite_line_word)
qed (use assms single_command_line in auto)

lemma run_processors_line:
  assumes "run_processors ps m d h = Inr m'"
  shows "(list_all single_command_processor ps \<longrightarrow>
            marker_line m' = marker_line m \<and> lines_after m' = lines_after m)
       \<and> (marker_line m' = marker_line m
            \<or> (command_word (marker_line m) = ''G1'' \<and> command_word (marker_line m') = ''G1''
               \<and> comment_part (marker_line m') = comment_part (marker_line m)))"
  using assms
proof (induction ps arbitrary: m)
  case Nil
  then show ?case by simp
next
  case (Cons p ps)
  from Cons.prems obtain m1 where
    1: "processor_handle p m d h = Inr m1" and 2: "run_processors ps m1 d h = Inr m'"
    by (auto split: sum.splits)
  from processor_handle_line [OF 1] Cons.IH [OF 2] show ?case by auto
qed

lemma process_line_shape:
  assumes "process_line cp layer raw = Inr (cp1, layer1, ls)"
  shows "processors cp1 = processors cp
       \<and> ((strip raw = [] \<and> ls = [])
          \<or> (strip raw \<noteq> [] \<and> (\<exists>m. ls = emit m \<and> kept_or_rewritten (processors cp) (strip raw) m)))"
proof (cases "strip raw = []")
  case True
  with assms show ?thesis by (simp add: process_line_def)
next
  case False
  with assms obtain d m where
    r: "run_processors (processors cp) (Marker_init (strip raw)) d (head_handle (head cp) (strip raw)) = Inr m"
    and c: "cp1 = cp\<lparr>height_detector := d, head := head_handle (head cp) (strip raw)\<rparr>"
    and l: "ls = emit m"
    by (auto simp: process_line_def Let_def emit_def split: sum.splits)
  from run_processors_line [OF r] have "kept_or_rewritten (processors cp) (strip raw) m"
    by (auto simp: kept_or_rewritten_def Marker_init_def)
  with False c l show ?thesis by auto
qed

lemma process_lines_shape:
  assumes "process_lines cp layer acc raws = Inr (cp1, new_lines)"
  shows "processors cp1 = processors cp
       \<and> (\<exists>ms. list_all2 (kept_or_rewritten (processors cp))
                  (filter (\<lambda>l. l \<noteq> []) (map strip raws)) ms
              \<and> new_lines = acc @ concat (map emit ms))"
  using assms
proof (induction raws arbitrary: cp layer acc)
  case Nil
  then show ?case by simp
next
  case (Cons raw raws)
  from Cons.prems obtain cp2 layer2 ls where
    l: "process_line cp layer raw = Inr (cp2, layer2, ls)"
    and r: "process_lines cp2 layer2 (acc @ ls) raws = Inr (cp1, new_lines)"
    by (auto split: sum.splits)
  from process_line_shape [OF l] have p: "processors cp2 = processors cp" by simp
  from Cons.IH [OF r] p obtain ms where
    p1: "processors cp1 = processors cp"
    and ms: "list_all2 (kept_or_rewritten (processors cp)) (filter (\<lambda>l. l \<noteq> []) (map strip raws)) ms"
    "new_lines = (acc @ ls) @ concat (map emit ms)" by auto
  from process_line_shape [OF l]
  consider "strip raw = []" "ls = []"
    | m where "strip raw \<noteq> []" "ls = emit m" "kept_or_rewritten (processors cp) (strip raw) m"
    by blast
  then show ?case
  proof cases
    case 1
    with p1 ms show ?thesis by auto
  next
    case 2
    with ms have "list_all2 (kept_or_rewritten (processors cp))
                    (filter (\<lambda>l. l \<noteq> []) (map strip (raw # raws))) (m # ms)
       \<and> new_lines = acc @ concat (map emit (m # ms))" by simp
    with p1 show ?thesis by blast
  qed
qed

lemma process_group_shape:
  assumes "process_group cp grp = Inr (cp1, block)"
  shows "processors cp1 = processors cp
       \<and> (\<exists>ms. list_all2 (kept_or_rewritten (processors cp)) (clean_lines grp) ms
              \<and> block = join ''\<newline>'' (concat (map emit ms)) @ ''\<newline>'')"
proof -
  from assms obtain new_lines where
    "process_lines cp None [] (split (CHR ''\<newline>'') grp) = Inr (cp1, new_lines)"
    "block = join ''\<newline>'' new_lines @ ''\<newline>''"
    by (auto simp: process_group_def split: sum.splits)
  with process_lines_shape [OF this(1)] show ?thesis by (auto simp: clean_lines_def)
qed

lemma process_data_shape:
  assumes "process_data cp data = Inr (cp1, out)"
  shows "list_all2 (\<lambda>grp block. \<exists>ms. list_all2 (kept_or_rewritten (processors cp)) (clean_lines grp) ms
            \<and> block = join ''\<newline>'' (concat (map emit ms)) @ ''\<newline>'') data out"
  using assms
proof (induction data arbitrary: cp out)
  case Nil
  then show ?case by simp
next
  case (Cons grp data)
  from Cons.prems obtain cp2 block blocks where
    g: "process_group cp grp = Inr (cp2, block)"
    and d: "process_data cp2 data = Inr (cp1, blocks)" and o: "out = block # blocks"
    by (auto split: sum.splits)
  from process_group_shape [OF g] have p: "processors cp2 = processors cp" by simp
  from process_group_shape [OF g] Cons.IH [OF d] o p show ?case by simp
qed

text \<open>
  C4, as stated, fails: a block is not made of the input lines unchanged. Every line is
  trimmed, blank lines are dropped, and a continuous-rewrite processor replaces the line:
  with the print-speed processor at 50 percent, \<open>G1 X1 E1 F1200\<close> is emitted as
  \<open>G1 F600.0 X1.0 E1.0\<close>.
\<close>

theorem process_data_rewrites_lines:
  "map_sum id snd (process_data
     (CalibrationProcessor_init (HeightDetector_init LayerHeightDetector (PInt 1) (PInt 1) (PInt 5))
        [PrintSpeedProcessor (PInt 50) (PInt 10)])
     ['';LAYER:1\<newline>  G1 X1 E1 F1200  \<newline>\<newline>G1 X2 E2\<newline>''])
   = Inr ['';LAYER:1\<newline>G1 F600.0 X1.0 E1.0\<newline>G1 X2 E2\<newline>'']"
  by code_simp

text \<open>
  C4, amended: whenever \<open>process_data\<close> returns, it returns as many blocks as it was given.
  Each block is made from the non-blank lines of the input block, trimmed, in their order:
  for each of them the block holds the lines queued before it, then the line, then the lines
  queued after it; the whole is joined with newlines and ended by a newline. With one-shot
  processors only, the line is emitted unchanged and nothing is queued after it. With a
  continuous-rewrite processor configured, the line is emitted unchanged unless it is a
  \<open>G1\<close> command; in the place of a \<open>G1\<close> command a \<open>G1\<close> command line with the same comment
  may be emitted.
\<close>

theorem process_data_blocks:
  assumes "process_data cp data = Inr (cp1, out)"
  shows "length out = length data
       \<and> list_all2 (\<lambda>grp block.
            \<exists>ms. list_all2 (kept_or_rewritten (processors cp)) (clean_lines grp) ms
               \<and> block = join ''\<newline>'' (concat (map emit ms)) @ ''\<newline>'') data out"
  using process_data_shape [OF assms] by (simp add: list_all2_lengthD)

theorem process_data_blocks_witness:
  "\<exists>cp1 out. process_data
       (CalibrationProcessor_init (HeightDetector_init LayerHeightDetector (PInt 1) (PInt 1) (PInt 5))
          [HotendTempProcessor (PInt 190) (PInt 10), PrintSpeedProcessor (PInt 50) (PInt 10)])
       [''G28\<newline>'', '';LAYER:1\<newline> G1 X1 E1 F1200;fast\<newline>\<newline>G1 X2 E2\<newline>''] = Inr (cp1, out)
     \<and> out = [''G28\<newline>'', ''M104 S190\<newline>;LAYER:1\<newline>G1 F600.0 X1.0 E1.0;fast\<newline>G1 X2 E2\<newline>'']
     \<and> length out = 2
     \<and> list_all2 (\<lambda>grp block.
          \<exists>ms. list_all2 (kept_or_rewritten
                  [HotendTempProcessor (PInt 190) (PInt 10), PrintSpeedProcessor (PInt 50) (PInt 10)])
                 (clean_lines grp) ms
             \<and> block = join ''\<newline>'' (concat (map emit ms)) @ ''\<newline>'')
          [''G28\<newline>'', '';LAYER:1\<newline> G1 X1 E1 F1200;fast\<newline>\<newline>G1 X2 E2\<newline>''] out"
proof -
  let ?ps = "[HotendTempProcessor (PInt 190) (PInt 10), PrintSpeedProcessor (PInt 50) (PInt 10)]"
  let ?cp = "CalibrationProcessor_init (HeightDetector_init LayerHeightDetector (PInt 1) (PInt 1) (PInt 5)) ?ps"
  let ?data = "[''G28\<newline>'', '';LAYER:1\<newline> G1 X1 E1 F1200;fast\<newline>\<newline>G1 X2 E2\<newline>'']"
  let ?out = "[''G28\<newline>'', ''M104 S190\<newline>;LAYER:1\<newline>G1 F600.0 X1.0 E1.0;fast\<newline>G1 X2 E2\<newline>'']"
  have "map_sum id snd (process_data ?cp ?data) = Inr ?out" by code_simp
  then obtain cp1 where r: "process_data ?cp ?data = Inr (cp1, ?out)"
    by (cases "process_data ?cp ?data") auto
  have p: "processors ?cp = ?ps" by (simp add: CalibrationProcessor_init_def)
  from process_data_blocks [OF r] p r show ?thesis
    by (simp del: process_data.simps)
qed

end
